theory Spec2Isabelle
  imports Complex_Main "HOL-Library.Word" "HOL-Library.Sublist"
begin

section \<open>The sign-language hook: data model\<close>

text \<open>
  The hook \<^verbatim>\<open>useSignLanguageModel\<close> exists in three listings in
  \<^verbatim>\<open>src/hooks/useSignLanguageModel.js\<close>: the full hook (first listing, local model
  first in the cascade), a second full listing (persistent cache first, session blobs
  carrying a version tag), and a simplified hook (third listing). Definitions without a
  suffix embed the first listing; \<open>_v2\<close> marks the second and \<open>_simplified\<close> the third.
  JavaScript numbers are embedded as \<^typ>\<open>real\<close>: the code only copies and compares them.
\<close>

datatype js_error = Error (message: string)

type_synonym 'a result = "js_error + 'a"

type_synonym byte = "8 word"

text \<open>A slot of a JavaScript array of numbers: \<open>None\<close> is an empty slot (a hole).\<close>

type_synonym slot = "real option"

type_synonym frame = "slot list"

datatype landmark = Landmark (lm_x: real) (lm_y: real) (lm_z: real)

definition FRAME_BUFFER_SIZE :: nat where
  "FRAME_BUFFER_SIZE = 30"

definition CONFIDENCE_THRESHOLD :: real where
  "CONFIDENCE_THRESHOLD = 7 / 10"

definition USE_MOCK_MODEL :: bool where
  "USE_MOCK_MODEL = False"

definition CACHE_KEY :: string where
  "CACHE_KEY = ''sign-language-model-v5''"

definition DEFAULT_CLASS_LABELS :: "string list" where
  "DEFAULT_CLASS_LABELS =
     [''Hello'', ''Thank you'', ''Yes'', ''No'', ''Please'', ''Sorry'',
      ''Good'', ''Bad'', ''Name'', ''What'', ''Where'', ''When'', ''How'',
      ''Help'', ''Want'', ''Love'', ''Like'', ''Need'', ''Time'', ''Now'']"

text \<open>
  A loaded model object. \<open>predict\<close> is \<open>None\<close> when \<^verbatim>\<open>typeof model.predict\<close> is not
  \<^verbatim>\<open>'function'\<close>; otherwise it stands for building the input tensor from the buffer,
  \<^verbatim>\<open>model.predict\<close> and \<^verbatim>\<open>predictions.data()\<close>, with \<open>Inl\<close> when any of them throws.
\<close>

record tf_model =
  predict :: "(frame list \<Rightarrow> real list result) option"
  mockModel :: bool
  outputNames :: "string list option"

record prediction_t =
  label :: "string option"
  confidence :: real
  isMock :: bool

text \<open>The archive after extraction: the entries of \<^verbatim>\<open>zipContents.files\<close> in key order.\<close>

type_synonym zip_files = "(string \<times> byte list) list"

text \<open>
  The React state and refs of the full hook. \<open>inferenceCalls\<close> is the trace of the
  external effect \<^verbatim>\<open>model.predict(...)\<close>: the number of times it has been invoked.
\<close>

record hook_state =
  model :: "tf_model option"
  isLoading :: bool
  error :: "string option"
  classLabels :: "string list"
  prediction :: "prediction_t option"
  isBufferFull :: bool
  downloadProgress :: real
  extractionProgress :: real
  modelLoadingStage :: string
  bufferRef :: "frame list"
  lastPredictionTimeRef :: real
  zipCacheRef :: "zip_files option"
  inferenceCalls :: nat

definition initial_state :: hook_state where
  "initial_state =
     \<lparr> model = None, isLoading = True, error = None, classLabels = DEFAULT_CLASS_LABELS,
       prediction = None, isBufferFull = False, downloadProgress = 0,
       extractionProgress = 0, modelLoadingStage = ''initializing'', bufferRef = [],
       lastPredictionTimeRef = 0, zipCacheRef = None, inferenceCalls = 0 \<rparr>"

section \<open>Frame vectors and the frame buffer\<close>

text \<open>\<^verbatim>\<open>arr[i] = v\<close>: an assignment past the end extends the array, leaving holes.\<close>

definition array_set :: "slot list \<Rightarrow> nat \<Rightarrow> real \<Rightarrow> slot list" where
  "array_set arr i v =
     (if i < length arr then arr[i := Some v]
      else arr @ replicate (i - length arr) None @ [Some v])"

text \<open>\<^verbatim>\<open>xs.forEach((x, i) => ...)\<close> with the effect of the callback threaded as state.\<close>

definition forEach :: "('s \<Rightarrow> 'a \<Rightarrow> nat \<Rightarrow> 's) \<Rightarrow> 's \<Rightarrow> 'a list \<Rightarrow> 's" where
  "forEach f s xs = foldl (\<lambda>acc (i, v). f acc v i) s (enumerate 0 xs)"

definition store_landmark :: "slot list \<Rightarrow> nat \<Rightarrow> landmark \<Rightarrow> slot list" where
  "store_landmark arr baseIndex lm =
     array_set (array_set (array_set arr baseIndex (lm_x lm)) (baseIndex + 1) (lm_y lm))
       (baseIndex + 2) (lm_z lm)"

text \<open>Lines 784-802: the frame vector of the full hook. \<open>hand_step\<close> is the callback of
  the outer \<^verbatim>\<open>forEach\<close>; the inner one stores one landmark.\<close>

definition hand_step :: "slot list \<Rightarrow> landmark list \<Rightarrow> nat \<Rightarrow> slot list" where
  "hand_step arr handLandmarks handIndex =
     (if handIndex \<ge> 2 then arr
      else forEach (\<lambda>arr' lm landmarkIndex.
             store_landmark arr' (handIndex * 63 + landmarkIndex * 3) lm) arr handLandmarks)"

definition handLandmarksArray :: "landmark list list option \<Rightarrow> frame" where
  "handLandmarksArray landmarks =
     (case landmarks of
        None \<Rightarrow> replicate 126 (Some 0)
      | Some hands \<Rightarrow> forEach hand_step (replicate 126 (Some 0)) hands)"

text \<open>\<^verbatim>\<open>landmarkerResult.landmarks || []\<close>\<close>

definition hands_of :: "landmark list list option \<Rightarrow> landmark list list" where
  "hands_of landmarks = (case landmarks of None \<Rightarrow> [] | Some hs \<Rightarrow> hs)"

text \<open>Lines 1918-1945: the frame vector of the simplified hook, two bounded loops.\<close>

fun landmark_loop :: "slot list \<Rightarrow> nat \<Rightarrow> landmark list \<Rightarrow> nat list \<Rightarrow> slot list" where
  "landmark_loop arr hi hand [] = arr"
| "landmark_loop arr hi hand (li # lis) =
     landmark_loop
       (if li < length hand then store_landmark arr (hi * 63 + li * 3) (hand ! li) else arr)
       hi hand lis"

fun hand_loop :: "slot list \<Rightarrow> landmark list list \<Rightarrow> nat list \<Rightarrow> slot list" where
  "hand_loop arr hands [] = arr"
| "hand_loop arr hands (hi # his) =
     hand_loop (landmark_loop arr hi (hands ! hi) [0..<21]) hands his"

definition handLandmarksArray_simplified :: "landmark list list option \<Rightarrow> frame" where
  "handLandmarksArray_simplified landmarks =
     (let hands = hands_of landmarks
      in hand_loop (replicate 126 (Some 0)) hands [0..<min (length hands) 2])"

text \<open>Lines 804-816: push the frame, drop the oldest above capacity, report fullness.\<close>

definition processHandLandmarks :: "landmark list list option \<Rightarrow> hook_state \<Rightarrow> bool \<times> hook_state" where
  "processHandLandmarks landmarks s =
     (let pushed = bufferRef s @ [handLandmarksArray landmarks];
          buf = (if length pushed > FRAME_BUFFER_SIZE then tl pushed else pushed);
          isFull = (length buf = FRAME_BUFFER_SIZE)
      in (isFull, s\<lparr>bufferRef := buf, isBufferFull := isFull\<rparr>))"

text \<open>A sequence of ingests, one hand-tracking result after the other.\<close>

definition ingest_all :: "hook_state \<Rightarrow> landmark list list option list \<Rightarrow> hook_state" where
  "ingest_all s rs = foldl (\<lambda>st r. snd (processHandLandmarks r st)) s rs"

text \<open>
  The layout in the words of the specification: slot \<open>i\<close> belongs to hand \<open>i div 63\<close>,
  landmark \<open>(i mod 63) div 3\<close>, coordinate \<open>i mod 3\<close>, and is zero when that hand or
  landmark is absent.
\<close>

definition coord :: "nat \<Rightarrow> landmark \<Rightarrow> real" where
  "coord c lm = (if c = 0 then lm_x lm else if c = 1 then lm_y lm else lm_z lm)"

definition spec_slot :: "landmark list list \<Rightarrow> nat \<Rightarrow> slot" where
  "spec_slot hands i =
     (let h = i div 63; l = (i mod 63) div 3
      in if h < length hands \<and> l < length (hands ! h) then Some (coord (i mod 3) (hands ! h ! l))
         else Some 0)"

section \<open>The predictor\<close>

text \<open>Lines 893-902: the arg-max loop, starting from \<open>maxProb = 0\<close>, \<open>maxIndex = 0\<close>.\<close>

definition argmax_step :: "real \<times> nat \<Rightarrow> real \<Rightarrow> nat \<Rightarrow> real \<times> nat" where
  "argmax_step acc v i = (if v > fst acc then (v, i) else acc)"

definition argmax :: "real list \<Rightarrow> real \<times> nat" where
  "argmax predictionArray = forEach argmax_step (0, 0) predictionArray"

text \<open>\<^verbatim>\<open>xs[i]\<close> for reading: outside the array the value is \<^verbatim>\<open>undefined\<close>, here \<open>None\<close>.\<close>

definition array_get :: "'a list \<Rightarrow> int \<Rightarrow> 'a option" where
  "array_get xs i = (if 0 \<le> i \<and> i < int (length xs) then Some (xs ! nat i) else None)"

text \<open>Line 905: \<^verbatim>\<open>Math.min(maxIndex, classLabels.length - 1)\<close>\<close>

definition safeIndex :: "string list \<Rightarrow> nat \<Rightarrow> int" where
  "safeIndex labels maxIndex = min (int maxIndex) (int (length labels) - 1)"

text \<open>
  Lines 821-937: one call of \<^verbatim>\<open>runPrediction\<close> of the full hook. \<open>currentTime\<close> is the
  value of \<^verbatim>\<open>performance.now()\<close>, \<open>random1\<close> and \<open>random2\<close> are the two values
  \<^verbatim>\<open>Math.random()\<close> would return. The result is the returned prediction (\<open>None\<close> for
  \<^verbatim>\<open>null\<close>) and the state after the call.
\<close>

definition mock_prediction :: "real \<Rightarrow> real \<Rightarrow> hook_state \<Rightarrow> prediction_t" where
  "mock_prediction random1 random2 s =
     (let randomIndex = \<lfloor>random1 * real (length (classLabels s))\<rfloor>;
          mockConfidence = 7 / 10 + random2 * (28 / 100)
      in \<lparr>label = array_get (classLabels s) randomIndex, confidence = mockConfidence,
          isMock = True\<rparr>)"

text \<open>Lines 871-932: inference on the buffer, arg-max, label selection, confidence gate.\<close>

definition infer_and_gate ::
  "(frame list \<Rightarrow> real list result) \<Rightarrow> hook_state \<Rightarrow> prediction_t option \<times> hook_state" where
  "infer_and_gate predict_fn s1 =
     (if length (bufferRef s1) \<noteq> FRAME_BUFFER_SIZE then (None, s1)
      else
        let s2 = s1\<lparr>inferenceCalls := inferenceCalls s1 + 1\<rparr> in
        (case predict_fn (bufferRef s2) of
           Inl e \<Rightarrow> (None, s2)
         | Inr predictionArray \<Rightarrow>
             if predictionArray = [] then (None, s2)
             else
               let (maxProb, maxIndex) = argmax predictionArray;
                   predictedLabel =
                     array_get (classLabels s2) (safeIndex (classLabels s2) maxIndex);
                   predictedConfidence = maxProb
               in if predictedConfidence \<ge> CONFIDENCE_THRESHOLD then
                    let newPrediction =
                          \<lparr>label = predictedLabel, confidence = predictedConfidence,
                           isMock = USE_MOCK_MODEL\<rparr>
                    in (Some newPrediction, s2\<lparr>prediction := Some newPrediction\<rparr>)
                  else (None, s2)))"

definition runPrediction ::
  "real \<Rightarrow> real \<Rightarrow> real \<Rightarrow> hook_state \<Rightarrow> prediction_t option \<times> hook_state" where
  "runPrediction currentTime random1 random2 s =
     (case model s of
        None \<Rightarrow> (None, s)
      | Some m \<Rightarrow>
          (if \<not> isBufferFull s then (None, s)
           else
             (case predict m of
                None \<Rightarrow> (None, s)
              | Some predict_fn \<Rightarrow>
                  (if currentTime - lastPredictionTimeRef s < 200 then (None, s)
                   else
                     let s1 = s\<lparr>lastPredictionTimeRef := currentTime\<rparr> in
                     if (USE_MOCK_MODEL \<or> mockModel m) \<and> \<lfloor>currentTime / 3000\<rfloor> mod 3 = 0 then
                       let newMockPrediction = mock_prediction random1 random2 s1
                       in (Some newMockPrediction, s1\<lparr>prediction := Some newMockPrediction\<rparr>)
                     else infer_and_gate predict_fn s1))))"

text \<open>Lines 942-946.\<close>

definition resetBuffer :: "hook_state \<Rightarrow> hook_state" where
  "resetBuffer s = s\<lparr>bufferRef := [], isBufferFull := False, prediction := None\<rparr>"

subsection \<open>The simplified hook\<close>

text \<open>Decimal digits of a number, as a template literal prints it.\<close>

fun string_of_nat :: "nat \<Rightarrow> string" where
  "string_of_nat n =
     (if n < 10 then [char_of (48 + n)]
      else string_of_nat (n div 10) @ [char_of (48 + n mod 10)])"

declare string_of_nat.simps [simp del]

definition string_of_int :: "int \<Rightarrow> string" where
  "string_of_int i = (if i < 0 then ''-'' @ string_of_nat (nat (- i)) else string_of_nat (nat i))"

record simple_prediction =
  label_s :: string
  confidence_s :: real

text \<open>The part of the simplified hook's state that frame ingestion and prediction touch.\<close>

record simplified_state =
  model_s :: "tf_model option"
  error_s :: "string option"
  bufferRef_s :: "frame list"
  bufferLength_s :: nat
  isBufferFull_s :: bool
  isPredicting_s :: bool
  prediction_s :: "simple_prediction option"

text \<open>\<^verbatim>\<open>model.outputNames?.[idx] || `class_${idx}`\<close>: an absent or empty name falls back.\<close>

definition output_label :: "tf_model \<Rightarrow> nat \<Rightarrow> string" where
  "output_label m idx =
     (case outputNames m of
        None \<Rightarrow> ''class_'' @ string_of_nat idx
      | Some names \<Rightarrow>
          (case array_get names (int idx) of
             None \<Rightarrow> ''class_'' @ string_of_nat idx
           | Some name \<Rightarrow> if name = [] then ''class_'' @ string_of_nat idx else name))"

text \<open>Lines 1978-2001: the body of the \<^verbatim>\<open>try\<close> up to the output vector.\<close>

definition simplified_inference :: "tf_model \<Rightarrow> frame list \<Rightarrow> real list result" where
  "simplified_inference m buf =
     (if length buf \<noteq> FRAME_BUFFER_SIZE then
        Inl (Error (''Invalid buffer size: '' @ string_of_nat (length buf) @ ''/''
                    @ string_of_nat FRAME_BUFFER_SIZE))
      else
        (case find (\<lambda>fr. length fr \<noteq> 126) buf of
           Some frameWithWrongSize \<Rightarrow>
             Inl (Error (''Invalid frame size: '' @ string_of_nat (length frameWithWrongSize)
                         @ ''/126 values''))
         | None \<Rightarrow>
             (case predict m of
                None \<Rightarrow> Inl (Error ''model.predict is not a function'')
              | Some predict_fn \<Rightarrow> predict_fn buf)))"

text \<open>Lines 1969-2029: \<^verbatim>\<open>runPrediction\<close> of the simplified hook; it returns nothing.\<close>

definition runPrediction_simplified :: "simplified_state \<Rightarrow> simplified_state" where
  "runPrediction_simplified s =
     (case model_s s of
        None \<Rightarrow> s
      | Some m \<Rightarrow>
          if \<not> isBufferFull_s s then s
          else
            let s1 = s\<lparr>isPredicting_s := True\<rparr>;
                s2 = (case simplified_inference m (bufferRef_s s1) of
                        Inl e \<Rightarrow> s1\<lparr>error_s := Some (''Prediction error: '' @ message e)\<rparr>
                      | Inr data \<Rightarrow>
                          let (mx, idx) = argmax data
                          in if mx \<ge> CONFIDENCE_THRESHOLD then
                               s1\<lparr>prediction_s :=
                                    Some \<lparr>label_s = output_label m idx, confidence_s = mx\<rparr>\<rparr>
                             else
                               s1\<lparr>prediction_s :=
                                    Some \<lparr>label_s = ''No confident prediction'',
                                          confidence_s = mx\<rparr>\<rparr>)
            in s2\<lparr>isPredicting_s := False, bufferRef_s := [], bufferLength_s := 0,
                  isBufferFull_s := False\<rparr>)"

section \<open>The browser and the external functions\<close>

record response =
  ok :: bool
  status :: nat
  statusText :: string
  contentLength :: "nat option"
  chunks :: "byte list list"
  bodyError :: "js_error option"

text \<open>
  What the hook sees of the browser: the clock \<^verbatim>\<open>Date.now()\<close>, the session storage, the
  outcome of the \<open>k\<close>-th \<^verbatim>\<open>fetch\<close> of the archive (\<open>Inl\<close>: the promise rejects), the
  number of fetches made so far and the delays handed to \<^verbatim>\<open>setTimeout\<close> so far.
\<close>

record browser =
  now :: int
  sessionStorage :: "string \<Rightarrow> string option"
  fetchScript :: "nat \<Rightarrow> response result"
  fetches :: nat
  timeouts :: "real list"

record weights_group =
  paths :: "string list"
  weights :: "string list"

record model_json =
  json_modelTopology :: string
  weightsManifest :: "weights_group list"
  json_format :: string
  json_generatedBy :: string
  json_convertedBy :: string

record artifacts =
  modelTopology :: string
  weightSpecs :: "string list"
  weightData :: "byte list"
  format :: string
  generatedBy :: string
  convertedBy :: string

text \<open>
  The library and platform functions the hook calls, with \<open>Inl\<close> for a throw:
  base64 decoding and encoding, \<^verbatim>\<open>parseInt\<close> (\<open>None\<close> for \<^verbatim>\<open>NaN\<close>), JSZip's
  \<^verbatim>\<open>loadAsync\<close> with CRC checking, \<^verbatim>\<open>JSON.parse\<close> of the descriptor, the runtime
  set-up of lines 474-514, the two existence probes, the four \<^verbatim>\<open>tf.loadLayersModel\<close>
  sources, the construction of a model from assembled artifacts and \<^verbatim>\<open>createMockModel\<close>.
\<close>

record env =
  atob :: "string \<Rightarrow> byte list result"
  btoa :: "byte list \<Rightarrow> string"
  parseInt :: "string \<Rightarrow> int option"
  loadAsync :: "byte list \<Rightarrow> zip_files result"
  parseModelJson :: "byte list \<Rightarrow> model_json result"
  initRuntime :: "unit result"
  modelExists :: bool
  weightsExist :: bool
  loadLocal :: "tf_model result"
  loadIndexedDB :: "tf_model result"
  loadLocalStorage :: "tf_model result"
  loadRemote :: "tf_model result"
  modelFromArtifacts :: "artifacts \<Rightarrow> tf_model result"
  createMockModel :: "tf_model result"

section \<open>Retry with backoff\<close>

text \<open>
  Lines 112-127. The operation, the retry callback and the wait act on a world \<open>'w\<close>;
  \<^verbatim>\<open>Math.pow(2, 3 - retries)\<close> is \<open>2 powi (3 - retries)\<close>.
\<close>

function retryWithBackoff ::
  "('w \<Rightarrow> 'a result \<times> 'w) \<Rightarrow> int \<Rightarrow> real \<Rightarrow> (int \<Rightarrow> real \<Rightarrow> 'w \<Rightarrow> 'w) \<Rightarrow> (real \<Rightarrow> 'w \<Rightarrow> 'w)
     \<Rightarrow> 'w \<Rightarrow> 'a result \<times> 'w" where
  "retryWithBackoff operation retries baseDelay onRetry wait w =
     (case operation w of
        (Inr v, w1) \<Rightarrow> (Inr v, w1)
      | (Inl e, w1) \<Rightarrow>
          if retries \<le> 0 then (Inl e, w1)
          else
            let delay = baseDelay * (2 powi (3 - retries))
            in retryWithBackoff operation (retries - 1) baseDelay onRetry wait
                 (wait delay (onRetry retries delay w1)))"
  by pat_completeness auto
termination
  by (relation "measure (\<lambda>(operation, retries, baseDelay, onRetry, wait, w). nat retries)") auto

declare retryWithBackoff.simps [simp del]

section \<open>The session cache\<close>

definition truthy :: "string option \<Rightarrow> bool" where
  "truthy v = (case v of None \<Rightarrow> False | Some str \<Rightarrow> str \<noteq> [])"

text \<open>Lines 160-184: the first listing, a freshness window of ten minutes.\<close>

definition getModelDataFromSession :: "env \<Rightarrow> browser \<Rightarrow> byte list option" where
  "getModelDataFromSession ev w =
     (let timestamp = sessionStorage w (CACHE_KEY @ ''-timestamp'');
          base64data = sessionStorage w (CACHE_KEY @ ''-data'')
      in if truthy timestamp \<and> truthy base64data then
           (case parseInt ev (the timestamp) of
              None \<Rightarrow> None
            | Some t \<Rightarrow>
                if now w - t < 10 * 60 * 1000 then
                  (case atob ev (the base64data) of Inl e \<Rightarrow> None | Inr bytes \<Rightarrow> Some bytes)
                else None)
         else None)"

text \<open>Lines 1123-1149: the second listing, with a version tag and a window of one hour.\<close>

definition getModelDataFromSession_v2 :: "env \<Rightarrow> browser \<Rightarrow> byte list option" where
  "getModelDataFromSession_v2 ev w =
     (let base64data = sessionStorage w ''modelZipData'';
          timestamp = sessionStorage w ''modelZipTimestamp'';
          version = sessionStorage w ''modelZipVersion''
      in if truthy base64data \<and> truthy timestamp \<and> version = Some CACHE_KEY then
           (case parseInt ev (the timestamp) of
              None \<Rightarrow> None
            | Some t \<Rightarrow>
                let age = now w - t
                in if age < 60 * 60 * 1000 then
                     (case atob ev (the base64data) of Inl e \<Rightarrow> None | Inr bytes \<Rightarrow> Some bytes)
                   else None)
         else None)"

text \<open>
  Lines 132-155 and 1096-1117: blobs of ten megabytes or more are not stored. The write
  happens in the \<^verbatim>\<open>onload\<close> callback of a file reader; it is embedded as taking place
  at once, and a storage quota error, which the hook ignores, is not modelled.
\<close>

definition storeModelDataInSession :: "env \<Rightarrow> byte list \<Rightarrow> browser \<Rightarrow> browser" where
  "storeModelDataInSession ev data w =
     (if length data < 10 * 1024 * 1024 then
        w\<lparr>sessionStorage := (sessionStorage w)
             (CACHE_KEY @ ''-data'' \<mapsto> btoa ev data,
              CACHE_KEY @ ''-timestamp'' \<mapsto> string_of_int (now w))\<rparr>
      else w)"

definition storeModelDataInSession_v2 :: "env \<Rightarrow> byte list \<Rightarrow> browser \<Rightarrow> browser" where
  "storeModelDataInSession_v2 ev data w =
     (if length data < 10 * 1024 * 1024 then
        w\<lparr>sessionStorage := (sessionStorage w)
             (''modelZipData'' \<mapsto> btoa ev data,
              ''modelZipTimestamp'' \<mapsto> string_of_int (now w),
              ''modelZipVersion'' \<mapsto> CACHE_KEY)\<rparr>
      else w)"

section \<open>Download and extraction\<close>

text \<open>\<^verbatim>\<open>str.includes(sub)\<close>\<close>

fun str_includes :: "string \<Rightarrow> string \<Rightarrow> bool" where
  "str_includes [] sub = (sub = [])"
| "str_includes (c # cs) sub = (prefix sub (c # cs) \<or> str_includes cs sub)"

text \<open>Lines 233-234 and 339-343: some key of the archive contains \<^verbatim>\<open>model.json\<close>.\<close>

definition has_descriptor :: "zip_files \<Rightarrow> bool" where
  "has_descriptor zipContents =
     list_ex (\<lambda>file. str_includes file ''model.json'') (map fst zipContents)"

text \<open>\<^verbatim>\<open>fileList.join(', ')\<close>\<close>

fun join_comma :: "string list \<Rightarrow> string" where
  "join_comma [] = []"
| "join_comma [x] = x"
| "join_comma (x # y # ys) = x @ '', '' @ join_comma (y # ys)"

text \<open>Lines 249-262: one attempt of the download, the operation that is retried.\<close>

definition fetch_zip :: "hook_state \<times> browser \<Rightarrow> response result \<times> (hook_state \<times> browser)" where
  "fetch_zip sw =
     (let s = fst sw; w = snd sw; w' = w\<lparr>fetches := fetches w + 1\<rparr>
      in case fetchScript w (fetches w) of
           Inl e \<Rightarrow> (Inl e, (s, w'))
         | Inr resp \<Rightarrow>
             if \<not> ok resp then
               (Inl (Error (''Failed to download model ZIP: '' @ string_of_nat (status resp)
                            @ '' '' @ statusText resp)), (s, w'))
             else (Inr resp, (s, w')))"

text \<open>Lines 266-269 and the \<^verbatim>\<open>setTimeout\<close> of line 124.\<close>

definition download_onRetry :: "int \<Rightarrow> real \<Rightarrow> hook_state \<times> browser \<Rightarrow> hook_state \<times> browser" where
  "download_onRetry retriesLeft delay sw =
     ((fst sw)\<lparr>modelLoadingStage := ''download-retry''\<rparr>, snd sw)"

definition set_timeout :: "real \<Rightarrow> hook_state \<times> browser \<Rightarrow> hook_state \<times> browser" where
  "set_timeout delay sw = (fst sw, (snd sw)\<lparr>timeouts := timeouts (snd sw) @ [delay]\<rparr>)"

text \<open>Lines 248-270: the download with three retries and a base delay of 500 ms.\<close>

definition download_with_retry ::
  "hook_state \<times> browser \<Rightarrow> response result \<times> (hook_state \<times> browser)" where
  "download_with_retry sw = retryWithBackoff fetch_zip 3 500 download_onRetry set_timeout sw"

text \<open>Lines 272-296: the progress reported while the body is read, chunk by chunk.\<close>

fun read_body :: "nat \<Rightarrow> nat \<Rightarrow> byte list list \<Rightarrow> hook_state \<Rightarrow> hook_state" where
  "read_body totalBytes loadedBytes [] s = s"
| "read_body totalBytes loadedBytes (v # rest) s =
     (let loaded = loadedBytes + length v
      in read_body totalBytes loaded rest
           (if totalBytes > 0 then
              s\<lparr>downloadProgress := real loaded / real totalBytes * 100\<rparr>
            else s))"

text \<open>
  Lines 247-350: the fresh download, from the fetch to the validated archive. The
  \<open>store\<close> argument is the listing's \<^verbatim>\<open>storeModelDataInSession\<close>. The debounced
  progress callbacks of the extraction are left out: they write \<open>extractionProgress\<close>
  only, at times the code does not fix.
\<close>

definition fetchAndExtract ::
  "(env \<Rightarrow> byte list \<Rightarrow> browser \<Rightarrow> browser) \<Rightarrow> env \<Rightarrow> hook_state \<Rightarrow> browser
     \<Rightarrow> zip_files result \<times> hook_state \<times> browser" where
  "fetchAndExtract store ev s w =
     (case download_with_retry (s, w) of
        (Inl e, (s1, w1)) \<Rightarrow> (Inl e, s1, w1)
      | (Inr resp, (s1, w1)) \<Rightarrow>
          (let totalBytes = (case contentLength resp of None \<Rightarrow> 0 | Some n \<Rightarrow> n);
               s2 = read_body totalBytes 0 (chunks resp) s1
           in case bodyError resp of
                Some e \<Rightarrow> (Inl e, s2, w1)
              | None \<Rightarrow>
                  (let zipData = concat (chunks resp);
                       s3 = s2\<lparr>downloadProgress := 100\<rparr>;
                       w2 = store ev zipData w1;
                       s4 = s3\<lparr>modelLoadingStage := ''extracting''\<rparr>
                   in case loadAsync ev zipData of
                        Inl e \<Rightarrow> (Inl e, s4, w2)
                      | Inr zipContents \<Rightarrow>
                          (let s5 = s4\<lparr>zipCacheRef := Some zipContents\<rparr>
                           in if \<not> has_descriptor zipContents then
                                (Inl (Error
                                   (''Invalid model ZIP: Missing model.json file. Available files: ''
                                    @ join_comma (map fst zipContents))), s5, w2)
                              else (Inr zipContents, s5\<lparr>extractionProgress := 100\<rparr>, w2)))))"

text \<open>
  Lines 202-245 (1169-1210): the attempt on the session blob. The result is the archive
  to return, or \<open>None\<close> when the flow continues with the download.
\<close>

definition session_attempt ::
  "(env \<Rightarrow> browser \<Rightarrow> byte list option) \<Rightarrow> env \<Rightarrow> hook_state \<Rightarrow> browser
     \<Rightarrow> zip_files option \<times> hook_state" where
  "session_attempt getSession ev s w =
     (case getSession ev w of
        None \<Rightarrow> (None, s)
      | Some sessionStorageData \<Rightarrow>
          (let s1 = s\<lparr>downloadProgress := 100, modelLoadingStage := ''extracting''\<rparr>
           in case loadAsync ev sessionStorageData of
                Inl sessionError \<Rightarrow> (None, s1)
              | Inr zipContents \<Rightarrow>
                  (let s2 = s1\<lparr>zipCacheRef := Some zipContents\<rparr>
                   in if \<not> has_descriptor zipContents then (None, s2)
                      else (Some zipContents, s2\<lparr>extractionProgress := 100\<rparr>))))"

text \<open>Lines 189-355 (1155-1320).\<close>

definition downloadAndExtract ::
  "(env \<Rightarrow> browser \<Rightarrow> byte list option) \<Rightarrow> (env \<Rightarrow> byte list \<Rightarrow> browser \<Rightarrow> browser) \<Rightarrow> env
     \<Rightarrow> hook_state \<Rightarrow> browser \<Rightarrow> zip_files result \<times> hook_state \<times> browser" where
  "downloadAndExtract getSession store ev s w =
     (let s1 = s\<lparr>modelLoadingStage := ''downloading''\<rparr>
      in case zipCacheRef s1 of
           Some cached \<Rightarrow> (Inr cached, s1, w)
         | None \<Rightarrow>
             (case session_attempt getSession ev s1 w of
                (Some zipContents, s2) \<Rightarrow> (Inr zipContents, s2, w)
              | (None, s2) \<Rightarrow> fetchAndExtract store ev s2 w))"

definition downloadAndExtractModelZip ::
  "env \<Rightarrow> hook_state \<Rightarrow> browser \<Rightarrow> zip_files result \<times> hook_state \<times> browser" where
  "downloadAndExtractModelZip =
     downloadAndExtract getModelDataFromSession storeModelDataInSession"

definition downloadAndExtractModelZip_v2 ::
  "env \<Rightarrow> hook_state \<Rightarrow> browser \<Rightarrow> zip_files result \<times> hook_state \<times> browser" where
  "downloadAndExtractModelZip_v2 =
     downloadAndExtract getModelDataFromSession_v2 storeModelDataInSession_v2"

section \<open>Assembling the artifacts from the archive\<close>

datatype console_entry = ConsoleLog string | ConsoleError string "string list"

text \<open>\<^verbatim>\<open>path.replace(/^\.\//, '')\<close>\<close>

definition strip_dot_slash :: "string \<Rightarrow> string" where
  "strip_dot_slash path = (if prefix ''./'' path then drop 2 path else path)"

text \<open>Lines 393-399.\<close>

definition possiblePaths :: "string \<Rightarrow> string \<Rightarrow> string list" where
  "possiblePaths modelDir path =
     [modelDir @ path, path, ''model/'' @ path, ''assets/'' @ path, strip_dot_slash path]"

text \<open>Lines 402-409: the loop over the candidates; the first entry found ends it.\<close>

fun find_weight_file :: "zip_files \<Rightarrow> string list \<Rightarrow> (string \<times> byte list) option" where
  "find_weight_file files [] = None"
| "find_weight_file files (tryPath # rest) =
     (case map_of files tryPath of
        Some weightFile \<Rightarrow> Some (tryPath, weightFile)
      | None \<Rightarrow> find_weight_file files rest)"

text \<open>Lines 391-417: one weight path, with what is written to the console.\<close>

definition load_weight_file ::
  "zip_files \<Rightarrow> string \<Rightarrow> string \<Rightarrow> console_entry list \<times> byte list result" where
  "load_weight_file files modelDir path =
     (case find_weight_file files (possiblePaths modelDir path) of
        Some (tryPath, weightFile) \<Rightarrow>
          ([ConsoleLog (''Found weight file at path: '' @ tryPath)], Inr weightFile)
      | None \<Rightarrow>
          ([ConsoleError ''Attempted paths:'' (possiblePaths modelDir path)],
           Inl (Error (''Weight file not found in ZIP for path: '' @ path))))"

text \<open>\<^verbatim>\<open>Promise.all\<close>: the values in the order of the promises, or the first rejection.\<close>

fun promise_all :: "'a result list \<Rightarrow> 'a list result" where
  "promise_all [] = Inr []"
| "promise_all (r # rs) =
     (case r of
        Inl e \<Rightarrow> Inl e
      | Inr v \<Rightarrow> (case promise_all rs of Inl e \<Rightarrow> Inl e | Inr vs \<Rightarrow> Inr (v # vs)))"

text \<open>
  \<^verbatim>\<open>view.set(new Uint8Array(buf), offset)\<close>, for a source that fits into the view (the
  views of the hook have the total length of their sources).
\<close>

definition typed_array_set :: "byte list \<Rightarrow> byte list \<Rightarrow> nat \<Rightarrow> byte list" where
  "typed_array_set view buf offset = take offset view @ buf @ drop (offset + length buf) view"

text \<open>Lines 421-431 and 436-444: a zeroed buffer of the total length, filled in order.\<close>

fun copy_buffers :: "byte list \<Rightarrow> nat \<Rightarrow> byte list list \<Rightarrow> byte list" where
  "copy_buffers view offset [] = view"
| "copy_buffers view offset (buf # bufs) =
     copy_buffers (typed_array_set view buf offset) (offset + length buf) bufs"

definition concatenate_buffers :: "byte list list \<Rightarrow> byte list" where
  "concatenate_buffers buffers =
     (let totalByteLength = foldl (\<lambda>acc buf. acc + length buf) 0 buffers
      in copy_buffers (replicate totalByteLength 0) 0 buffers)"

text \<open>Lines 388-433: one manifest group.\<close>

definition load_group ::
  "zip_files \<Rightarrow> string \<Rightarrow> weights_group \<Rightarrow> console_entry list \<times> byte list result" where
  "load_group files modelDir grp =
     (let rs = map (load_weight_file files modelDir) (paths grp)
      in (concat (map fst rs),
          case promise_all (map snd rs) of
            Inl e \<Rightarrow> Inl e
          | Inr buffers \<Rightarrow> Inr (concatenate_buffers buffers)))"

text \<open>Lines 387-444: all groups, then the combined weight data.\<close>

definition load_weights ::
  "zip_files \<Rightarrow> string \<Rightarrow> weights_group list \<Rightarrow> console_entry list \<times> byte list result" where
  "load_weights files modelDir manifest =
     (let rs = map (load_group files modelDir) manifest
      in (concat (map fst rs),
          case promise_all (map snd rs) of
            Inl e \<Rightarrow> Inl e
          | Inr groupBuffers \<Rightarrow> Inr (concatenate_buffers groupBuffers)))"

text \<open>Lines 377-379: the directory of the descriptor, with its final slash.\<close>

definition dir_of :: "string \<Rightarrow> string" where
  "dir_of modelJsonFile =
     (if CHR ''/'' \<in> set modelJsonFile
      then rev (dropWhile (\<lambda>c. c \<noteq> CHR ''/'') (rev modelJsonFile))
      else [])"

text \<open>Lines 362-462: the \<^verbatim>\<open>load\<close> method of the handler made by \<^verbatim>\<open>createZipIOHandler\<close>.\<close>

definition createZipIOHandler_load ::
  "env \<Rightarrow> zip_files \<Rightarrow> hook_state \<Rightarrow> (console_entry list \<times> artifacts result) \<times> hook_state" where
  "createZipIOHandler_load ev zipContents s =
     (let s1 = s\<lparr>modelLoadingStage := ''loading''\<rparr>
      in case find (\<lambda>name. suffix ''model.json'' name \<or> name = ''model.json'')
                (map fst zipContents) of
           None \<Rightarrow> (([], Inl (Error ''model.json not found in ZIP file'')), s1)
         | Some modelJsonFile \<Rightarrow>
             (let modelDir = dir_of modelJsonFile
              in case map_of zipContents modelJsonFile of
                   None \<Rightarrow> (([], Inl (Error ''model.json not found in ZIP file'')), s1)
                 | Some modelJsonContent \<Rightarrow>
                     (case parseModelJson ev modelJsonContent of
                        Inl e \<Rightarrow> (([], Inl e), s1)
                      | Inr modelJSON \<Rightarrow>
                          (let weightSpecs' = concat (map weights (weightsManifest modelJSON));
                               loaded = load_weights zipContents modelDir (weightsManifest modelJSON)
                           in case snd loaded of
                                Inl e \<Rightarrow> ((fst loaded, Inl e), s1)
                              | Inr combinedWeightData \<Rightarrow>
                                  ((fst loaded,
                                    Inr \<lparr>modelTopology = json_modelTopology modelJSON,
                                         weightSpecs = weightSpecs',
                                         weightData = combinedWeightData,
                                         format = json_format modelJSON,
                                         generatedBy = json_generatedBy modelJSON,
                                         convertedBy = json_convertedBy modelJSON\<rparr>), s1)))))"

text \<open>
  The byte content of a weight path once resolved, in the words of the specification:
  the entry under the first candidate key that the archive holds.
\<close>

definition resolved_bytes :: "zip_files \<Rightarrow> string \<Rightarrow> string \<Rightarrow> byte list" where
  "resolved_bytes files modelDir path =
     (case find_weight_file files (possiblePaths modelDir path) of
        None \<Rightarrow> []
      | Some (tryPath, weightFile) \<Rightarrow> weightFile)"

section \<open>The acquisition cascade\<close>

text \<open>
  Each source returns the loaded model, or \<open>None\<close> when its \<^verbatim>\<open>try\<close> block caught a
  failure (the flag \<^verbatim>\<open>modelLoadSuccess\<close> stays false). A source is skipped when an
  earlier one has loaded a model.
\<close>

text \<open>Lines 525-537: the local bundled model, tried when both probes succeeded.\<close>

definition try_local :: "env \<Rightarrow> hook_state \<Rightarrow> tf_model option \<times> hook_state" where
  "try_local ev s =
     (if modelExists ev \<and> weightsExist ev then
        (let s1 = s\<lparr>modelLoadingStage := ''loading-local''\<rparr>
         in case loadLocal ev of Inl e \<Rightarrow> (None, s1) | Inr m \<Rightarrow> (Some m, s1))
      else (None, s))"

text \<open>Lines 539-563: the persistent cache, IndexedDB and then localStorage.\<close>

definition try_cache :: "env \<Rightarrow> hook_state \<Rightarrow> tf_model option \<times> hook_state" where
  "try_cache ev s =
     (let s1 = s\<lparr>modelLoadingStage := ''loading-from-cache''\<rparr>
      in case loadIndexedDB ev of
           Inr m \<Rightarrow> (Some m, s1)
         | Inl e \<Rightarrow>
             (case loadLocalStorage ev of Inr m \<Rightarrow> (Some m, s1) | Inl e' \<Rightarrow> (None, s1)))"

text \<open>
  Lines 565-591: session blob or fresh download, extraction, assembly, model
  construction, and a save to the cache whose failure is caught.
\<close>

definition zipSource ::
  "env \<Rightarrow> hook_state \<Rightarrow> browser \<Rightarrow> tf_model option \<times> hook_state \<times> browser" where
  "zipSource ev s w =
     (case downloadAndExtractModelZip ev s w of
        (Inl zipError, s1, w1) \<Rightarrow> (None, s1, w1)
      | (Inr zipContents, s1, w1) \<Rightarrow>
          (case createZipIOHandler_load ev zipContents s1 of
             ((console, Inl zipError), s2) \<Rightarrow> (None, s2, w1)
           | ((console, Inr modelArtifacts), s2) \<Rightarrow>
               (case modelFromArtifacts ev modelArtifacts of
                  Inl zipError \<Rightarrow> (None, s2, w1)
                | Inr m \<Rightarrow> (Some m, s2\<lparr>modelLoadingStage := ''caching''\<rparr>, w1))))"

text \<open>
  Lines 593-621: the model URL of the server, loaded directly. The progress callback,
  which writes \<open>downloadProgress\<close> only, and the save to the cache, whose failure is
  caught, are left out.
\<close>

definition try_remote :: "env \<Rightarrow> hook_state \<Rightarrow> tf_model option \<times> hook_state" where
  "try_remote ev s =
     (let s1 = s\<lparr>modelLoadingStage := ''loading-from-server''\<rparr>
      in case loadRemote ev of Inl e \<Rightarrow> (None, s1) | Inr m \<Rightarrow> (Some m, s1))"

definition cross_mark :: string where
  "cross_mark = [CHR 0xE2, CHR 0x9D, CHR 0x8C]"

text \<open>Lines 522-628: the sources in order, then the mock model as the last resort.\<close>

definition cascade ::
  "env \<Rightarrow> hook_state \<Rightarrow> browser \<Rightarrow> tf_model result \<times> hook_state \<times> browser" where
  "cascade ev s w =
     (case try_local ev s of
        (Some m, s1) \<Rightarrow> (Inr m, s1, w)
      | (None, s1) \<Rightarrow>
          (case try_cache ev s1 of
             (Some m, s2) \<Rightarrow> (Inr m, s2, w)
           | (None, s2) \<Rightarrow>
               (case zipSource ev s2 w of
                  (Some m, s3, w3) \<Rightarrow> (Inr m, s3, w3)
                | (None, s3, w3) \<Rightarrow>
                    (case try_remote ev s3 of
                       (Some m, s4) \<Rightarrow> (Inr m, s4, w3)
                     | (None, s4) \<Rightarrow>
                         (case createMockModel ev of
                            Inl e \<Rightarrow> (Inl e, s4, w3)
                          | Inr mock \<Rightarrow>
                              (Inr mock,
                               s4\<lparr>error := Some (cross_mark @
                                  '' Could not load real model. Using mock model for demonstration only.'')\<rparr>,
                               w3))))))"

text \<open>
  Lines 629-725: warm-up and validation (each one inference when the model has a
  \<^verbatim>\<open>predict\<close> function, their failures caught), the stage \<^verbatim>\<open>ready\<close>, and the final
  check that installs the model or throws.
\<close>

definition warm_up_and_install :: "tf_model \<Rightarrow> hook_state \<Rightarrow> unit result \<times> hook_state" where
  "warm_up_and_install loadedModel s =
     (let s1 = s\<lparr>modelLoadingStage := ''warming-up''\<rparr>;
          s2 = (case predict loadedModel of
                  None \<Rightarrow> s1
                | Some predict_fn \<Rightarrow> s1\<lparr>inferenceCalls := inferenceCalls s1 + 2\<rparr>);
          s3 = s2\<lparr>modelLoadingStage := ''ready''\<rparr>
      in case predict loadedModel of
           Some predict_fn \<Rightarrow> (Inr (), s3\<lparr>model := Some loadedModel\<rparr>)
         | None \<Rightarrow>
             (Inl (Error ''Model validation failed - model or predict function not available''),
              s3))"

text \<open>Lines 468-725: the body of the outer \<^verbatim>\<open>try\<close>.\<close>

definition loadModel_try :: "env \<Rightarrow> hook_state \<Rightarrow> browser \<Rightarrow> unit result \<times> hook_state \<times> browser" where
  "loadModel_try ev s w =
     (let s1 = s\<lparr>isLoading := True, modelLoadingStage := ''initializing''\<rparr>
      in case initRuntime ev of
           Inl e \<Rightarrow> (Inl e, s1, w)
         | Inr u \<Rightarrow>
             (if USE_MOCK_MODEL then
                (case createMockModel ev of
                   Inl e \<Rightarrow> (Inl e, s1, w)
                 | Inr mock \<Rightarrow>
                     (case warm_up_and_install mock s1 of (r, s2) \<Rightarrow> (r, s2, w)))
              else
                (case cascade ev s1 w of
                   (Inl e, s2, w2) \<Rightarrow> (Inl e, s2, w2)
                 | (Inr loadedModel, s2, w2) \<Rightarrow>
                     (case warm_up_and_install loadedModel s2 of (r, s3) \<Rightarrow> (r, s3, w2)))))"

text \<open>Lines 726-747: the outer \<^verbatim>\<open>catch\<close>.\<close>

definition loadModel_catch :: "env \<Rightarrow> js_error \<Rightarrow> hook_state \<Rightarrow> hook_state" where
  "loadModel_catch ev err s =
     (let s1 = s\<lparr>error := Some (''Failed to load model: '' @ message err),
                  modelLoadingStage := ''error''\<rparr>
      in if \<not> USE_MOCK_MODEL then
           (case createMockModel ev of
              Inr mockModel' \<Rightarrow>
                (if predict mockModel' \<noteq> None then
                   s1\<lparr>model := Some mockModel',
                      error := Some ''Using mock model for demonstration purposes. The actual model failed to load.''\<rparr>
                 else
                   s1\<lparr>error := Some (''Complete failure: '' @ message err
                                       @ ''. Mock model creation also failed.'')\<rparr>)
            | Inl mockError \<Rightarrow>
                s1\<lparr>error := Some (''Complete failure: '' @ message err
                                    @ ''. Mock model also failed: '' @ message mockError)\<rparr>)
         else s1)"

text \<open>Lines 467-751: \<^verbatim>\<open>loadModel\<close>, with its \<^verbatim>\<open>finally\<close>.\<close>

definition loadModel :: "env \<Rightarrow> hook_state \<Rightarrow> browser \<Rightarrow> hook_state \<times> browser" where
  "loadModel ev s w =
     (case loadModel_try ev s w of
        (Inr u, s1, w1) \<Rightarrow> (s1\<lparr>isLoading := False\<rparr>, w1)
      | (Inl err, s1, w1) \<Rightarrow> ((loadModel_catch ev err s1)\<lparr>isLoading := False\<rparr>, w1))"

section \<open>Inputs used in the worked instances\<close>

text \<open>The \<open>k\<close>-th hand-tracking result of a run: one hand with one landmark at \<open>x = k\<close>.\<close>

definition numbered_result :: "nat \<Rightarrow> landmark list list option" where
  "numbered_result k = Some [[Landmark (real k) 0 0]]"

text \<open>A model whose inference returns a fixed output vector, and a full buffer of zero frames.\<close>

definition const_model :: "real list \<Rightarrow> tf_model" where
  "const_model out = \<lparr>predict = Some (\<lambda>buf. Inr out), mockModel = False, outputNames = None\<rparr>"

definition full_buffer :: "frame list" where
  "full_buffer = replicate 30 (replicate 126 (Some 0))"

definition ready_state :: "real list \<Rightarrow> prediction_t option \<Rightarrow> hook_state" where
  "ready_state out prev =
     initial_state\<lparr>model := Some (const_model out), isLoading := False,
       modelLoadingStage := ''ready'', bufferRef := full_buffer, isBufferFull := True,
       prediction := prev\<rparr>"

definition simplified_ready :: "real list \<Rightarrow> simple_prediction option \<Rightarrow> simplified_state" where
  "simplified_ready out prev =
     \<lparr>model_s = Some (const_model out), error_s = None, bufferRef_s = full_buffer,
      bufferLength_s = 30, isBufferFull_s = True, isPredicting_s = False,
      prediction_s = prev\<rparr>"

definition hello :: prediction_t where
  "hello = \<lparr>label = Some ''Hello'', confidence = 9 / 10, isMock = False\<rparr>"

definition hello_s :: simple_prediction where
  "hello_s = \<lparr>label_s = ''class_0'', confidence_s = 9 / 10\<rparr>"

text \<open>
  The error with which the \<open>k\<close>-th attempt of the download fails, if it fails: the
  rejection of the fetch, or the error thrown for a response that is not OK.
\<close>

definition fetch_error :: "browser \<Rightarrow> nat \<Rightarrow> js_error option" where
  "fetch_error w k =
     (case fetchScript w k of
        Inl e \<Rightarrow> Some e
      | Inr resp \<Rightarrow>
          if \<not> ok resp then
            Some (Error (''Failed to download model ZIP: '' @ string_of_nat (status resp)
                         @ '' '' @ statusText resp))
          else None)"

text \<open>A browser without network and with an empty session storage.\<close>

definition offline :: browser where
  "offline =
     \<lparr>now = 1700000000000, sessionStorage = (\<lambda>k. None),
      fetchScript = (\<lambda>k. Inl (Error ''Failed to fetch'')), fetches = 0, timeouts = []\<rparr>"

text \<open>
  An archive whose weight files sit under three different layouts, and a manifest of two
  groups with the paths \<^verbatim>\<open>[a.bin, b.bin]\<close> and \<^verbatim>\<open>[c.bin]\<close>.
\<close>

definition sample_archive :: zip_files where
  "sample_archive =
     [(''model.json'', []), (''a.bin'', [1, 2]), (''assets/b.bin'', [3]),
      (''model/c.bin'', [4, 5])]"

definition sample_manifest :: "weights_group list" where
  "sample_manifest =
     [\<lparr>paths = [''a.bin'', ''b.bin''], weights = [''w1'', ''w2'']\<rparr>,
      \<lparr>paths = [''c.bin''], weights = [''w3'']\<rparr>]"

text \<open>
  An environment in which no stored or remote model can be loaded and the mock model can
  be built. Its \<^verbatim>\<open>loadAsync\<close> accepts the three bytes that \<open>online\<close> serves and rejects
  everything else; its \<^verbatim>\<open>parseInt\<close> knows a timestamp one second old and one an hour old.
\<close>

definition test_env :: env where
  "test_env =
     \<lparr>atob = (\<lambda>str. Inr [0]),
      btoa = (\<lambda>data. ''UEsD''),
      parseInt = (\<lambda>str. if str = ''fresh'' then Some (1700000000000 - 1000)
                         else if str = ''stale'' then Some (1700000000000 - 3600000)
                         else None),
      loadAsync = (\<lambda>data. if data = [80, 75, 3] then Inr sample_archive
                           else Inl (Error ''Corrupted zip: CRC32 mismatch'')),
      parseModelJson = (\<lambda>content. Inl (Error ''Unexpected end of JSON input'')),
      initRuntime = Inr (),
      modelExists = True,
      weightsExist = True,
      loadLocal = Inl (Error ''Request failed''),
      loadIndexedDB = Inl (Error ''Cannot find model in IndexedDB''),
      loadLocalStorage = Inl (Error ''Cannot find model in localStorage''),
      loadRemote = Inl (Error ''Request to server failed''),
      modelFromArtifacts = (\<lambda>a. Inl (Error ''Invalid model topology'')),
      createMockModel = Inr (const_model [1 / 2, 1 / 2])\<rparr>"

text \<open>A browser whose download succeeds at once, with a given session storage.\<close>

definition online :: "(string \<Rightarrow> string option) \<Rightarrow> browser" where
  "online storage =
     \<lparr>now = 1700000000000, sessionStorage = storage,
      fetchScript = (\<lambda>k. Inr \<lparr>ok = True, status = 200, statusText = ''OK'',
                                contentLength = Some 3, chunks = [[80, 75, 3]],
                                bodyError = None\<rparr>),
      fetches = 0, timeouts = []\<rparr>"

text \<open>Session blobs: one with an old version tag, one an hour old, one that is corrupt.\<close>

definition old_version_blob :: "string \<Rightarrow> string option" where
  "old_version_blob =
     [''modelZipData'' \<mapsto> ''UEsD'', ''modelZipTimestamp'' \<mapsto> ''fresh'',
      ''modelZipVersion'' \<mapsto> ''sign-language-model-v4'']"

definition stale_blob :: "string \<Rightarrow> string option" where
  "stale_blob =
     [''modelZipData'' \<mapsto> ''UEsD'', ''modelZipTimestamp'' \<mapsto> ''stale'',
      ''modelZipVersion'' \<mapsto> CACHE_KEY]"

definition corrupt_blob :: "string \<Rightarrow> string option" where
  "corrupt_blob =
     [''modelZipData'' \<mapsto> ''AA=='', ''modelZipTimestamp'' \<mapsto> ''fresh'',
      ''modelZipVersion'' \<mapsto> CACHE_KEY]"

text \<open>
  The retries of a download in the words of the amended claim: the number of failed
  attempts before the first success, three at most, and the outcome of the attempt
  after them.
\<close>

definition retries_made :: "browser \<Rightarrow> nat" where
  "retries_made w =
     (if fetch_error w (fetches w) = None then 0
      else if fetch_error w (fetches w + 1) = None then 1
      else if fetch_error w (fetches w + 2) = None then 2
      else 3)"

definition download_outcome :: "browser \<Rightarrow> response result" where
  "download_outcome w =
     (case fetch_error w (fetches w + retries_made w) of
        None \<Rightarrow> fetchScript w (fetches w + retries_made w)
      | Some e \<Rightarrow> Inl e)"

text \<open>A browser whose first fetch fails and whose later fetches succeed.\<close>

definition ok_response :: response where
  "ok_response =
     \<lparr>ok = True, status = 200, statusText = ''OK'', contentLength = Some 3,
      chunks = [[80, 75, 3]], bodyError = None\<rparr>"

definition flaky :: browser where
  "flaky =
     \<lparr>now = 1700000000000, sessionStorage = (\<lambda>k. None),
      fetchScript = (\<lambda>k. if k = 0 then Inl (Error ''Failed to fetch'') else Inr ok_response),
      fetches = 0, timeouts = []\<rparr>"

text \<open>An output vector of 25 classes, five more than labels, with its maximum at index 22.\<close>

definition wide_output :: "real list" where
  "wide_output = replicate 22 0 @ [9 / 10, 1 / 10, 0]"

section \<open>Frame vectors: the slot layout\<close>

lemma forEach_Nil: "forEach f s [] = s"
  by (simp add: forEach_def)

lemma forEach_snoc: "forEach f s (xs @ [v]) = f (forEach f s xs) v (length xs)"
  by (simp add: forEach_def enumerate_append_eq)

lemma array_set_inside:
  "i < length arr \<Longrightarrow> array_set arr i v = arr[i := Some v]"
  by (simp add: array_set_def)

lemma store_landmark_length:
  "b + 3 \<le> length arr \<Longrightarrow> length (store_landmark arr b lm) = length arr"
  by (simp add: store_landmark_def array_set_inside)

lemma store_landmark_nth:
  "b + 3 \<le> length arr \<Longrightarrow> i < length arr \<Longrightarrow>
   store_landmark arr b lm ! i =
     (if b \<le> i \<and> i < b + 3 then Some (coord (i - b) lm) else arr ! i)"
  by (auto simp: store_landmark_def array_set_inside coord_def nth_list_update)

lemma forEach_landmarks:
  "off + 3 * length hand \<le> length arr \<Longrightarrow>
   length (forEach (\<lambda>a lm li. store_landmark a (off + li * 3) lm) arr hand) = length arr \<and>
   (\<forall>i < length arr.
      forEach (\<lambda>a lm li. store_landmark a (off + li * 3) lm) arr hand ! i =
        (if off \<le> i \<and> i < off + 3 * length hand
         then Some (coord ((i - off) mod 3) (hand ! ((i - off) div 3))) else arr ! i))"
proof (induction hand rule: rev_induct)
  case Nil
  then show ?case by (auto simp: forEach_Nil)
next
  case (snoc lm hand)
  let ?prev = "forEach (\<lambda>a lm li. store_landmark a (off + li * 3) lm) arr hand"
  from snoc have len: "length ?prev = length arr"
    and nth: "\<And>i. i < length arr \<Longrightarrow> ?prev ! i =
        (if off \<le> i \<and> i < off + 3 * length hand
         then Some (coord ((i - off) mod 3) (hand ! ((i - off) div 3))) else arr ! i)"
    by auto
  from snoc.prems have room: "off + length hand * 3 + 3 \<le> length ?prev"
    by (simp add: len)
  have step: "forEach (\<lambda>a lm li. store_landmark a (off + li * 3) lm) arr (hand @ [lm]) =
      store_landmark ?prev (off + length hand * 3) lm"
    by (simp add: forEach_snoc)
  show ?case
  proof (intro conjI allI impI)
    show "length (forEach (\<lambda>a lm li. store_landmark a (off + li * 3) lm) arr (hand @ [lm])) = length arr"
      using room by (simp add: step store_landmark_length len)
  next
    fix i assume i: "i < length arr"
    have "store_landmark ?prev (off + length hand * 3) lm ! i =
        (if off + length hand * 3 \<le> i \<and> i < off + length hand * 3 + 3
         then Some (coord (i - (off + length hand * 3)) lm) else ?prev ! i)"
      using room i by (simp add: store_landmark_nth len)
    moreover have "off + length hand * 3 \<le> i \<Longrightarrow> i < off + length hand * 3 + 3 \<Longrightarrow>
        (i - off) div 3 = length hand \<and> (i - off) mod 3 = i - (off + length hand * 3)"
      by (auto simp: div_nat_eqI mod_nat_eqI) 
    moreover have "off \<le> i \<Longrightarrow> i < off + 3 * length hand \<Longrightarrow> (i - off) div 3 < length hand"
      by (rule less_mult_imp_div_less) arith
    ultimately show "forEach (\<lambda>a lm li. store_landmark a (off + li * 3) lm) arr (hand @ [lm]) ! i =
        (if off \<le> i \<and> i < off + 3 * length (hand @ [lm])
         then Some (coord ((i - off) mod 3) ((hand @ [lm]) ! ((i - off) div 3))) else arr ! i)"
      using i by (auto simp: step nth i nth_append)
  qed
qed


lemma spec_slot_snoc_old:
  "i div 63 < length hs \<Longrightarrow> spec_slot (hs @ [h]) i = spec_slot hs i"
  by (simp add: spec_slot_def nth_append Let_def)

lemma spec_slot_absent:
  "length hs \<le> i div 63 \<Longrightarrow> spec_slot hs i = Some 0"
  by (simp add: spec_slot_def)

lemma spec_slot_snoc_new:
  "i div 63 = length hs \<Longrightarrow>
   spec_slot (hs @ [h]) i =
     (if (i mod 63) div 3 < length h then Some (coord (i mod 3) (h ! ((i mod 63) div 3)))
      else Some 0)"
  by (simp add: spec_slot_def nth_append)

lemma hands_invariant:
  "\<forall>h \<in> set (take 2 hands). length h \<le> 21 \<Longrightarrow>
   length (forEach hand_step (replicate 126 (Some 0)) hands) = 126 \<and>
   (\<forall>i < 126. forEach hand_step (replicate 126 (Some 0)) hands ! i = spec_slot hands i)"
proof (induction hands rule: rev_induct)
  case Nil
  show ?case by (simp add: forEach_Nil spec_slot_def)
next
  case (snoc h hs)
  let ?prev = "forEach hand_step (replicate 126 (Some 0)) hs"
  from snoc.prems have "\<forall>h \<in> set (take 2 hs). length h \<le> 21" by auto
  with snoc.IH have len: "length ?prev = 126"
    and nth: "\<And>i. i < 126 \<Longrightarrow> ?prev ! i = spec_slot hs i" by auto
  have step: "forEach hand_step (replicate 126 (Some 0)) (hs @ [h]) = hand_step ?prev h (length hs)"
    by (simp add: forEach_snoc)
  show ?case
  proof (cases "length hs \<ge> 2")
    case True
    then have "hand_step ?prev h (length hs) = ?prev" by (simp add: hand_step_def)
    moreover have "\<And>i. i < 126 \<Longrightarrow> spec_slot (hs @ [h]) i = spec_slot hs i"
    proof -
      fix i :: nat assume "i < 126"
      then have "i div 63 < 2" by simp
      with True show "spec_slot (hs @ [h]) i = spec_slot hs i"
        by (simp add: spec_slot_snoc_old)
    qed
    ultimately show ?thesis by (simp add: step len nth)
  next
    case False
    then have small: "length hs < 2" by simp
    with snoc.prems have hlen: "length h \<le> 21" by simp
    define off where "off = length hs * 63"
    from small hlen have room: "off + 3 * length h \<le> length ?prev"
      by (simp add: off_def len)
    have hs_step: "hand_step ?prev h (length hs) =
        forEach (\<lambda>a lm li. store_landmark a (off + li * 3) lm) ?prev h"
      using small by (simp add: hand_step_def off_def)
    note fe = forEach_landmarks [OF room]
    show ?thesis
    proof (intro conjI allI impI)
      show "length (forEach hand_step (replicate 126 (Some 0)) (hs @ [h])) = 126"
        using fe by (simp add: step hs_step len)
    next
      fix i :: nat assume i: "i < 126"
      have cur: "forEach hand_step (replicate 126 (Some 0)) (hs @ [h]) ! i =
          (if off \<le> i \<and> i < off + 3 * length h
           then Some (coord ((i - off) mod 3) (h ! ((i - off) div 3))) else spec_slot hs i)"
        using fe i by (simp add: step hs_step len nth)
      consider (old) "i div 63 < length hs" | (new) "i div 63 = length hs" | (later) "length hs < i div 63"
        by linarith
      then show "forEach hand_step (replicate 126 (Some 0)) (hs @ [h]) ! i = spec_slot (hs @ [h]) i"
      proof cases
        case old
        then have "i < off" unfolding off_def by (simp add: div_less_iff_less_mult)
        with old show ?thesis by (simp add: cur spec_slot_snoc_old)
      next
        case new
        then have lo: "off \<le> i" and eq: "i - off = i mod 63"
          unfolding off_def new [symmetric] by (simp_all add: minus_div_mult_eq_mod)
        have m3: "(i mod 63) mod 3 = i mod 3"
          by (simp add: mod_mod_cancel)
        have lt: "i < off + 3 * length h \<longleftrightarrow> (i mod 63) div 3 < length h"
          using lo eq by (auto simp: div_less_iff_less_mult mult.commute)
        from new have absent: "spec_slot hs i = Some 0" by (simp add: spec_slot_absent)
        show ?thesis
          using lo by (simp add: cur spec_slot_snoc_new [OF new] eq m3 lt absent)
      next
        case later
        then have "off + 63 \<le> i" unfolding off_def
          by (metis Suc_leI add.commute less_eq_div_iff_mult_less_eq mult_Suc zero_less_numeral)
        with hlen have "\<not> i < off + 3 * length h" by simp
        moreover from later have "spec_slot hs i = Some 0" by (simp add: spec_slot_absent)
        moreover from later have "spec_slot (hs @ [h]) i = Some 0" by (simp add: spec_slot_absent)
        ultimately show ?thesis by (simp add: cur)
      qed
    qed
  qed
qed



lemma landmark_loop_append:
  "landmark_loop arr hi hand (xs @ ys) = landmark_loop (landmark_loop arr hi hand xs) hi hand ys"
  by (induction xs arbitrary: arr) simp_all

lemma hand_loop_append:
  "hand_loop arr hands (xs @ ys) = hand_loop (hand_loop arr hands xs) hands ys"
  by (induction xs arbitrary: arr) simp_all

lemma landmark_loop_upt:
  "off + 3 * n \<le> length arr \<Longrightarrow> off = hi * 63 \<Longrightarrow>
   length (landmark_loop arr hi hand [0..<n]) = length arr \<and>
   (\<forall>i < length arr.
      landmark_loop arr hi hand [0..<n] ! i =
        (if off \<le> i \<and> i < off + 3 * n \<and> (i - off) div 3 < length hand
         then Some (coord ((i - off) mod 3) (hand ! ((i - off) div 3))) else arr ! i))"
proof (induction n)
  case 0
  show ?case by auto
next
  case (Suc n)
  let ?prev = "landmark_loop arr hi hand [0..<n]"
  from Suc have len: "length ?prev = length arr"
    and nth: "\<And>i. i < length arr \<Longrightarrow> ?prev ! i =
        (if off \<le> i \<and> i < off + 3 * n \<and> (i - off) div 3 < length hand
         then Some (coord ((i - off) mod 3) (hand ! ((i - off) div 3))) else arr ! i)"
    by auto
  from Suc.prems have room: "off + n * 3 + 3 \<le> length ?prev" by (simp add: len)
  have step: "landmark_loop arr hi hand ([0..<n] @ [n]) =
      (if n < length hand then store_landmark ?prev (off + n * 3) (hand ! n) else ?prev)"
    using Suc.prems by (simp add: landmark_loop_append)
  have idx: "\<And>i. off + n * 3 \<le> i \<Longrightarrow> i < off + n * 3 + 3 \<Longrightarrow>
        (i - off) div 3 = n \<and> (i - off) mod 3 = i - (off + n * 3)"
    by (auto simp: div_nat_eqI mod_nat_eqI)
  show ?case
  proof (intro conjI allI impI)
    show "length (landmark_loop arr hi hand [0..<Suc n]) = length arr"
      using room by (simp add: step store_landmark_length len)
  next
    fix i assume i: "i < length arr"
    show "landmark_loop arr hi hand [0..<Suc n] ! i =
        (if off \<le> i \<and> i < off + 3 * Suc n \<and> (i - off) div 3 < length hand
         then Some (coord ((i - off) mod 3) (hand ! ((i - off) div 3))) else arr ! i)"
    proof (cases "off + n * 3 \<le> i \<and> i < off + n * 3 + 3")
      case True
      with idx have "(i - off) div 3 = n" "(i - off) mod 3 = i - (off + n * 3)" by auto
      with True room i show ?thesis
        by (auto simp: step store_landmark_nth len nth)
    next
      case False
      then have "store_landmark ?prev (off + n * 3) (hand ! n) ! i = ?prev ! i"
        using room i by (auto simp: store_landmark_nth len)
      then have "landmark_loop arr hi hand ([0..<n] @ [n]) ! i = ?prev ! i"
        by (simp add: step)
      moreover have "(i < off + 3 * Suc n) = (i < off + 3 * n)"
        using False by arith
      ultimately show ?thesis using i by (simp only: upt_Suc_append [OF le0] nth)
    qed
  qed
qed


lemma hand_loop_invariant:
  "n \<le> min (length hands) 2 \<Longrightarrow>
   length (hand_loop (replicate 126 (Some 0)) hands [0..<n]) = 126 \<and>
   (\<forall>i < 126. hand_loop (replicate 126 (Some 0)) hands [0..<n] ! i =
      (if i div 63 < n then spec_slot hands i else Some 0))"
proof (induction n)
  case 0
  show ?case by simp
next
  case (Suc n)
  let ?prev = "hand_loop (replicate 126 (Some 0)) hands [0..<n]"
  define off where "off = n * 63"
  from Suc have len: "length ?prev = 126"
    and nth: "\<And>i. i < 126 \<Longrightarrow> ?prev ! i = (if i div 63 < n then spec_slot hands i else Some 0)"
    by auto
  from Suc.prems have n2: "n < 2" and nh: "n < length hands" by auto
  have step: "hand_loop (replicate 126 (Some 0)) hands ([0..<n] @ [n]) =
      landmark_loop ?prev n (hands ! n) [0..<21]"
    by (simp add: hand_loop_append)
  from n2 have room: "off + 3 * 21 \<le> length ?prev" by (simp add: off_def len)
  note ll = landmark_loop_upt [OF room off_def, of "hands ! n"]
  show ?case
  proof (intro conjI allI impI)
    show "length (hand_loop (replicate 126 (Some 0)) hands [0..<Suc n]) = 126"
      using ll by (simp add: step len)
  next
    fix i :: nat assume i: "i < 126"
    have cur: "hand_loop (replicate 126 (Some 0)) hands ([0..<n] @ [n]) ! i =
        (if off \<le> i \<and> i < off + 3 * 21 \<and> (i - off) div 3 < length (hands ! n)
         then Some (coord ((i - off) mod 3) (hands ! n ! ((i - off) div 3)))
         else if i div 63 < n then spec_slot hands i else Some 0)"
      using ll i by (simp add: step len nth)
    consider (old) "i div 63 < n" | (new) "i div 63 = n" | (later) "n < i div 63"
      by linarith
    then show "hand_loop (replicate 126 (Some 0)) hands [0..<Suc n] ! i =
        (if i div 63 < Suc n then spec_slot hands i else Some 0)"
    proof cases
      case old
      then have "i < off" unfolding off_def by (simp add: div_less_iff_less_mult)
      with old show ?thesis by (simp add: cur)
    next
      case new
      then have lo: "off \<le> i" and eq: "i - off = i mod 63"
        unfolding off_def new [symmetric] by (simp_all add: minus_div_mult_eq_mod)
      have m3: "(i mod 63) mod 3 = i mod 3"
        by (simp add: mod_mod_cancel)
      have "i mod 63 < 63" by simp
      with eq lo have hi: "i < off + 3 * 21" by linarith
      show ?thesis
        using lo hi new nh by (simp add: cur eq m3 spec_slot_def Let_def)
    next
      case later
      then have "off + 63 \<le> i" unfolding off_def
        by (metis Suc_leI add.commute less_eq_div_iff_mult_less_eq mult_Suc zero_less_numeral)
      then have "\<not> i < off + 3 * 21" by simp
      with later show ?thesis by (simp add: cur)
    qed
  qed
qed


lemma handLandmarksArray_spec:
  assumes "\<forall>h \<in> set (take 2 (hands_of landmarks)). length h \<le> 21"
  shows "handLandmarksArray landmarks = map (spec_slot (hands_of landmarks)) [0..<126]"
proof (cases landmarks)
  case None
  have "map (spec_slot []) [0..<126] = replicate 126 (Some 0)"
    by (rule nth_equalityI) (simp_all add: spec_slot_def)
  with None show ?thesis by (simp add: handLandmarksArray_def hands_of_def)
next
  case (Some hands)
  with assms have "\<forall>h \<in> set (take 2 hands). length h \<le> 21" by (simp add: hands_of_def)
  from hands_invariant [OF this] Some show ?thesis
    by (intro nth_equalityI) (simp_all add: handLandmarksArray_def hands_of_def)
qed

lemma handLandmarksArray_simplified_spec:
  "handLandmarksArray_simplified landmarks = map (spec_slot (hands_of landmarks)) [0..<126]"
proof -
  let ?hands = "hands_of landmarks"
  note inv = hand_loop_invariant [of "min (length ?hands) 2" ?hands, OF order_refl]
  have "\<And>i. i < 126 \<Longrightarrow>
      (if i div 63 < min (length ?hands) 2 then spec_slot ?hands i else Some 0) = spec_slot ?hands i"
  proof -
    fix i :: nat assume "i < 126"
    then have "i div 63 < 2" by simp
    then show "(if i div 63 < min (length ?hands) 2 then spec_slot ?hands i else Some 0) = spec_slot ?hands i"
      by (auto simp: spec_slot_absent)
  qed
  with inv show ?thesis
    by (intro nth_equalityI) (simp_all add: handLandmarksArray_simplified_def Let_def)
qed

text \<open>
  Claim C9. Frame-vector construction is slot-fixed. For hands of at most 21 landmarks
  (the hand tracker delivers exactly 21), the frame of the full hook and the frame of
  the simplified hook both have 126 slots, and slot \<open>i\<close> holds coordinate \<open>i mod 3\<close> of
  landmark \<open>(i mod 63) div 3\<close> of hand \<open>i div 63\<close> when that hand and landmark are
  present and zero otherwise. Hands beyond index 1 have no slot, and an empty first hand
  leaves the first 63 slots at zero with the second hand's data still starting at slot 63.
\<close>

theorem frame_vector_slot_fixed:
  assumes "\<forall>h \<in> set (take 2 (hands_of landmarks)). length h \<le> 21"
  shows "handLandmarksArray landmarks = map (spec_slot (hands_of landmarks)) [0..<126]
       \<and> handLandmarksArray_simplified landmarks = map (spec_slot (hands_of landmarks)) [0..<126]"
  using assms by (simp add: handLandmarksArray_spec handLandmarksArray_simplified_spec)

lemma spec_slot_example:
  "map (spec_slot [[], [Landmark 1 2 3]]) [0..<126] =
     replicate 63 (Some 0) @ [Some 1, Some 2, Some 3] @ replicate 60 (Some 0)"
  by code_simp

theorem frame_vector_slot_fixed_witness:
  "handLandmarksArray (Some [[], [Landmark 1 2 3]]) =
       replicate 63 (Some 0) @ [Some 1, Some 2, Some 3] @ replicate 60 (Some 0)
   \<and> handLandmarksArray_simplified (Some [[], [Landmark 1 2 3]]) =
       replicate 63 (Some 0) @ [Some 1, Some 2, Some 3] @ replicate 60 (Some 0)"
proof -
  have h: "\<forall>h \<in> set (take 2 (hands_of (Some [[], [Landmark 1 2 3]]))). length h \<le> 21"
    by (simp add: hands_of_def)
  have e: "hands_of (Some [[], [Landmark 1 2 3]]) = [[], [Landmark 1 2 3]]"
    by (simp add: hands_of_def)
  show ?thesis
    using frame_vector_slot_fixed [OF h] by (simp only: e spec_slot_example simp_thms)
qed

section \<open>The frame buffer is a bounded FIFO\<close>

lemma processHandLandmarks_buffer:
  "bufferRef (snd (processHandLandmarks r s)) =
     (if length (bufferRef s) \<ge> FRAME_BUFFER_SIZE
      then tl (bufferRef s @ [handLandmarksArray r]) else bufferRef s @ [handLandmarksArray r])"
  by (simp add: processHandLandmarks_def Let_def)

lemma ingest_all_Cons:
  "ingest_all s (r # rs) = ingest_all (snd (processHandLandmarks r s)) rs"
  by (simp add: ingest_all_def)

lemma ingest_all_buffer:
  "length (bufferRef s) \<le> FRAME_BUFFER_SIZE \<Longrightarrow>
   bufferRef (ingest_all s rs) =
     drop (length (bufferRef s) + length rs - FRAME_BUFFER_SIZE)
       (bufferRef s @ map handLandmarksArray rs)"
proof (induction rs arbitrary: s)
  case Nil
  then show ?case by (simp add: ingest_all_def)
next
  case (Cons r rs)
  let ?s' = "snd (processHandLandmarks r s)"
  let ?f = "handLandmarksArray r"
  show ?case
  proof (cases "length (bufferRef s) = FRAME_BUFFER_SIZE")
    case True
    then have b': "bufferRef ?s' = tl (bufferRef s @ [?f])"
      by (simp add: processHandLandmarks_buffer)
    then have len': "length (bufferRef ?s') = FRAME_BUFFER_SIZE"
      using True by simp
    have "bufferRef (ingest_all ?s' rs) =
        drop (length rs) (tl (bufferRef s @ [?f]) @ map handLandmarksArray rs)"
      using Cons.IH [of ?s'] len' by (simp add: b')
    also have "tl (bufferRef s @ [?f]) @ map handLandmarksArray rs =
        drop 1 (bufferRef s @ ?f # map handLandmarksArray rs)"
      by (cases "bufferRef s") (simp_all add: drop_Suc)
    also have "drop (length rs) (drop 1 (bufferRef s @ ?f # map handLandmarksArray rs)) =
        drop (Suc (length rs)) (bufferRef s @ ?f # map handLandmarksArray rs)"
      by (simp only: drop_drop) simp
    finally have "bufferRef (ingest_all ?s' rs) =
        drop (Suc (length rs)) (bufferRef s @ ?f # map handLandmarksArray rs)" .
    moreover have "length (bufferRef s) + length (r # rs) - FRAME_BUFFER_SIZE = Suc (length rs)"
      using True by simp
    ultimately show ?thesis
      by (simp only: ingest_all_Cons list.map)
  next
    case False
    with Cons.prems have lt: "length (bufferRef s) < FRAME_BUFFER_SIZE" by simp
    then have b': "bufferRef ?s' = bufferRef s @ [?f]"
      by (simp add: processHandLandmarks_buffer)
    then have len': "length (bufferRef ?s') \<le> FRAME_BUFFER_SIZE"
      using lt by simp
    show ?thesis
      using Cons.IH [OF len'] by (simp add: ingest_all_Cons b')
  qed
qed

text \<open>
  Claim C1. For every sequence of ingests from a buffer within capacity (it starts
  empty), the buffer never holds more than \<open>FRAME_BUFFER_SIZE\<close> frames, and after at
  least \<open>FRAME_BUFFER_SIZE\<close> ingests it holds exactly the frame vectors of the last
  \<open>FRAME_BUFFER_SIZE\<close> ingests, in the order of their insertion.
\<close>

theorem frame_buffer_fifo:
  assumes "length (bufferRef s) \<le> FRAME_BUFFER_SIZE"
  shows "length (bufferRef (ingest_all s rs)) \<le> FRAME_BUFFER_SIZE
       \<and> (FRAME_BUFFER_SIZE \<le> length rs \<longrightarrow>
            bufferRef (ingest_all s rs) =
              map handLandmarksArray (drop (length rs - FRAME_BUFFER_SIZE) rs))"
proof
  show "length (bufferRef (ingest_all s rs)) \<le> FRAME_BUFFER_SIZE"
    using assms by (simp add: ingest_all_buffer)
next
  show "FRAME_BUFFER_SIZE \<le> length rs \<longrightarrow>
        bufferRef (ingest_all s rs) = map handLandmarksArray (drop (length rs - FRAME_BUFFER_SIZE) rs)"
  proof
    assume full: "FRAME_BUFFER_SIZE \<le> length rs"
    have "bufferRef (ingest_all s rs) =
        drop (length (bufferRef s) + length rs - FRAME_BUFFER_SIZE)
          (bufferRef s @ map handLandmarksArray rs)"
      using assms by (rule ingest_all_buffer)
    also have "\<dots> = drop (length rs - FRAME_BUFFER_SIZE) (map handLandmarksArray rs)"
      using full by simp
    finally show "bufferRef (ingest_all s rs) =
        map handLandmarksArray (drop (length rs - FRAME_BUFFER_SIZE) rs)"
      by (simp add: drop_map)
  qed
qed

theorem frame_buffer_fifo_witness:
  "length (bufferRef initial_state) \<le> FRAME_BUFFER_SIZE
   \<and> FRAME_BUFFER_SIZE \<le> length (map numbered_result [0..<32])
   \<and> length (bufferRef (ingest_all initial_state (map numbered_result [0..<32]))) \<le> FRAME_BUFFER_SIZE
   \<and> bufferRef (ingest_all initial_state (map numbered_result [0..<32])) =
       map handLandmarksArray (drop 2 (map numbered_result [0..<32]))"
proof -
  have h: "length (bufferRef initial_state) \<le> FRAME_BUFFER_SIZE"
    by (simp add: initial_state_def)
  have n: "FRAME_BUFFER_SIZE \<le> length (map numbered_result [0..<32])"
    by (simp add: FRAME_BUFFER_SIZE_def)
  have d: "length (map numbered_result [0..<32]) - FRAME_BUFFER_SIZE = 2"
    by (simp add: FRAME_BUFFER_SIZE_def)
  note fifo = frame_buffer_fifo [OF h, of "map numbered_result [0..<32]"]
  from fifo have c: "length (bufferRef (ingest_all initial_state (map numbered_result [0..<32])))
      \<le> FRAME_BUFFER_SIZE"
    by (rule conjunct1)
  from fifo n have "bufferRef (ingest_all initial_state (map numbered_result [0..<32])) =
      map handLandmarksArray
        (drop (length (map numbered_result [0..<32]) - FRAME_BUFFER_SIZE)
          (map numbered_result [0..<32]))"
    by blast
  then have e: "bufferRef (ingest_all initial_state (map numbered_result [0..<32])) =
      map handLandmarksArray (drop 2 (map numbered_result [0..<32]))"
    by (simp only: d)
  from h n c e show ?thesis by (intro conjI)
qed

section \<open>The predictor: label selection, throttle and confidence gate\<close>

lemma safeIndex_in_range:
  "labels \<noteq> [] \<Longrightarrow> 0 \<le> safeIndex labels maxIndex \<and> safeIndex labels maxIndex < int (length labels)"
  by (cases labels) (simp_all add: safeIndex_def)

lemma safeIndex_nat:
  "labels \<noteq> [] \<Longrightarrow> nat (safeIndex labels maxIndex) = min maxIndex (length labels - 1)"
  by (cases labels) (auto simp: safeIndex_def min_def)

lemma runPrediction_throttled:
  "currentTime - lastPredictionTimeRef s < 200 \<Longrightarrow>
   runPrediction currentTime random1 random2 s = (None, s)"
  by (simp add: runPrediction_def split: option.splits)

lemma infer_and_gate_time:
  "lastPredictionTimeRef (snd (infer_and_gate f s)) = lastPredictionTimeRef s"
  by (simp add: infer_and_gate_def Let_def split: sum.splits prod.splits)

lemma runPrediction_sets_time:
  assumes "model s = Some m" "predict m = Some f" "isBufferFull s"
    and "\<not> currentTime - lastPredictionTimeRef s < 200"
  shows "lastPredictionTimeRef (snd (runPrediction currentTime random1 random2 s)) = currentTime"
  using assms by (simp add: runPrediction_def Let_def infer_and_gate_time)

lemma runPrediction_inference:
  assumes "model s = Some m" "isBufferFull s" "predict m = Some f"
    and "\<not> t - lastPredictionTimeRef s < 200" and "\<not> mockModel m"
  shows "runPrediction t r1 r2 s = infer_and_gate f (s\<lparr>lastPredictionTimeRef := t\<rparr>)"
  using assms by (simp add: runPrediction_def USE_MOCK_MODEL_def)

lemma infer_and_gate_output:
  assumes "length (bufferRef s1) = FRAME_BUFFER_SIZE" "f (bufferRef s1) = Inr out" "out \<noteq> []"
  shows "infer_and_gate f s1 =
     (let s2 = s1\<lparr>inferenceCalls := inferenceCalls s1 + 1\<rparr>;
          p = \<lparr>label = array_get (classLabels s1) (safeIndex (classLabels s1) (snd (argmax out))),
               confidence = fst (argmax out), isMock = False\<rparr>
      in if fst (argmax out) \<ge> CONFIDENCE_THRESHOLD then (Some p, s2\<lparr>prediction := Some p\<rparr>)
         else (None, s2))"
  using assms
  by (simp add: infer_and_gate_def Let_def USE_MOCK_MODEL_def split: prod.splits)

lemma runPrediction_simplified_output:
  assumes "model_s z = Some m" "isBufferFull_s z" "simplified_inference m (bufferRef_s z) = Inr out"
  shows "prediction_s (runPrediction_simplified z) =
     Some \<lparr>label_s = (if fst (argmax out) \<ge> CONFIDENCE_THRESHOLD
                       then output_label m (snd (argmax out)) else ''No confident prediction''),
           confidence_s = fst (argmax out)\<rparr>"
  using assms
  by (simp add: runPrediction_simplified_def Let_def split: prod.splits)

lemma argmax_two: "argmax [a, b] = (if b > (if a > 0 then a else 0) then (b, 1) else if a > 0 then (a, 0) else (0, 0))"
  by (simp add: argmax_def forEach_def argmax_step_def)

lemma full_buffer_ok:
  "length full_buffer = FRAME_BUFFER_SIZE" "find (\<lambda>fr. length fr \<noteq> 126) full_buffer = None"
  by (simp_all add: full_buffer_def FRAME_BUFFER_SIZE_def find_None_iff)

lemma string_of_nat_0: "string_of_nat 0 = ''0''"
  by code_simp

lemma argmax_snoc: "argmax (xs @ [v]) = argmax_step (argmax xs) v (length xs)"
  by (simp add: argmax_def forEach_snoc)

lemma argmax_is_max:
  "0 \<le> fst (argmax xs) \<and> (\<forall>v \<in> set xs. v \<le> fst (argmax xs))
   \<and> (0 < fst (argmax xs) \<longrightarrow> snd (argmax xs) < length xs \<and> xs ! snd (argmax xs) = fst (argmax xs))
   \<and> (fst (argmax xs) = 0 \<longrightarrow> snd (argmax xs) = 0)"
proof (induction xs rule: rev_induct)
  case Nil
  show ?case by (simp add: argmax_def forEach_Nil)
next
  case (snoc v xs)
  show ?case
  proof (cases "v > fst (argmax xs)")
    case True
    then have "argmax (xs @ [v]) = (v, length xs)"
      by (simp add: argmax_snoc argmax_step_def)
    with True snoc show ?thesis by (auto intro: less_imp_le order_trans)
  next
    case False
    then have "argmax (xs @ [v]) = argmax xs"
      by (simp add: argmax_snoc argmax_step_def)
    with False snoc show ?thesis by (auto simp: nth_append)
  qed
qed

lemma argmax_index: "xs \<noteq> [] \<Longrightarrow> snd (argmax xs) < length xs"
  using argmax_is_max [of xs] by (cases "fst (argmax xs) = 0") auto

lemma array_get_clamped:
  "labels \<noteq> [] \<Longrightarrow>
   array_get labels (safeIndex labels k) = Some (labels ! min k (length labels - 1))"
  using safeIndex_in_range [of labels k] safeIndex_nat [of labels k]
  by (simp add: array_get_def)

lemma argmax_wide: "argmax wide_output = (9 / 10, 22)"
  by code_simp

lemma infer_and_gate_calls:
  "inferenceCalls (snd (infer_and_gate f s)) \<le> Suc (inferenceCalls s)"
  by (simp add: infer_and_gate_def Let_def split: sum.splits prod.splits)

lemma infer_and_gate_calls_time:
  "inferenceCalls (snd (infer_and_gate f (s\<lparr>lastPredictionTimeRef := t\<rparr>)))
     \<le> Suc (inferenceCalls s)"
  using infer_and_gate_calls [of f "s\<lparr>lastPredictionTimeRef := t\<rparr>"] by simp

lemma runPrediction_no_inference_or_executed:
  "runPrediction t r1 r2 s = (None, s)
   \<or> (\<not> t - lastPredictionTimeRef s < 200
       \<and> lastPredictionTimeRef (snd (runPrediction t r1 r2 s)) = t
       \<and> inferenceCalls (snd (runPrediction t r1 r2 s)) \<le> inferenceCalls s + 1)"
  by (simp add: runPrediction_def Let_def infer_and_gate_time infer_and_gate_calls_time
      split: option.splits)

lemma const_model_run:
  assumes "model s = Some (const_model [1 / 10, 9 / 10])" "isBufferFull s"
    "bufferRef s = full_buffer" "\<not> t - lastPredictionTimeRef s < 200"
  shows "fst (runPrediction t 0 0 s) \<noteq> None
       \<and> inferenceCalls (snd (runPrediction t 0 0 s)) = inferenceCalls s + 1
       \<and> lastPredictionTimeRef (snd (runPrediction t 0 0 s)) = t
       \<and> model (snd (runPrediction t 0 0 s)) = model s
       \<and> isBufferFull (snd (runPrediction t 0 0 s))
       \<and> bufferRef (snd (runPrediction t 0 0 s)) = full_buffer"
  using assms
  by (simp add: runPrediction_def infer_and_gate_def const_model_def full_buffer_ok
      USE_MOCK_MODEL_def argmax_two CONFIDENCE_THRESHOLD_def Let_def)

text \<open>
  Claim C10. With a non-empty label list (the hook always holds the twenty default
  labels), the index used to read the label is at most \<open>length - 1\<close> and the read is
  inside the list. A prediction cycle that reaches the arg-max reads the label at the
  index \<open>min maxIndex (length - 1)\<close>, where \<open>maxIndex\<close> is the position of a largest
  entry of the output vector, and that label is the one it emits: the label at the
  arg-max index, or the last label when the arg-max index lies beyond the labels.
\<close>

theorem label_index_clamped:
  assumes "classLabels s \<noteq> []"
  shows "safeIndex (classLabels s) maxIndex \<le> int (length (classLabels s)) - 1
       \<and> array_get (classLabels s) (safeIndex (classLabels s) maxIndex) =
           Some (classLabels s ! min maxIndex (length (classLabels s) - 1))
       \<and> (length (classLabels s) \<le> maxIndex \<longrightarrow>
            array_get (classLabels s) (safeIndex (classLabels s) maxIndex) =
              Some (last (classLabels s)))
       \<and> (model s = Some m \<and> isBufferFull s \<and> predict m = Some f
            \<and> \<not> t - lastPredictionTimeRef s < 200 \<and> \<not> mockModel m
            \<and> length (bufferRef s) = FRAME_BUFFER_SIZE \<and> f (bufferRef s) = Inr out \<and> out \<noteq> []
          \<longrightarrow> snd (argmax out) < length out
              \<and> (\<forall>v \<in> set out. v \<le> fst (argmax out))
              \<and> runPrediction t r1 r2 s =
                  (let s2 = s\<lparr>lastPredictionTimeRef := t, inferenceCalls := inferenceCalls s + 1\<rparr>;
                       p = \<lparr>label = Some (classLabels s !
                                 min (snd (argmax out)) (length (classLabels s) - 1)),
                            confidence = fst (argmax out), isMock = False\<rparr>
                   in if fst (argmax out) \<ge> CONFIDENCE_THRESHOLD
                      then (Some p, s2\<lparr>prediction := Some p\<rparr>) else (None, s2))
              \<and> (length (classLabels s) \<le> snd (argmax out)
                    \<and> fst (argmax out) \<ge> CONFIDENCE_THRESHOLD
                  \<longrightarrow> fst (runPrediction t r1 r2 s) =
                        Some \<lparr>label = Some (last (classLabels s)),
                              confidence = fst (argmax out), isMock = False\<rparr>))"
proof -
  have get: "\<And>k. array_get (classLabels s) (safeIndex (classLabels s) k) =
      Some (classLabels s ! min k (length (classLabels s) - 1))"
    using assms by (rule array_get_clamped)
  have beyond: "classLabels s ! min k (length (classLabels s) - 1) = last (classLabels s)"
    if "length (classLabels s) \<le> k" for k
  proof -
    from that have "min k (length (classLabels s) - 1) = length (classLabels s) - 1"
      by arith
    with assms show ?thesis by (simp add: last_conv_nth)
  qed
  have cycle: "runPrediction t r1 r2 s =
        (let s2 = s\<lparr>lastPredictionTimeRef := t, inferenceCalls := inferenceCalls s + 1\<rparr>;
             p = \<lparr>label = Some (classLabels s !
                       min (snd (argmax out)) (length (classLabels s) - 1)),
                  confidence = fst (argmax out), isMock = False\<rparr>
         in if fst (argmax out) \<ge> CONFIDENCE_THRESHOLD
            then (Some p, s2\<lparr>prediction := Some p\<rparr>) else (None, s2))"
    if a: "model s = Some m \<and> isBufferFull s \<and> predict m = Some f
            \<and> \<not> t - lastPredictionTimeRef s < 200 \<and> \<not> mockModel m
            \<and> length (bufferRef s) = FRAME_BUFFER_SIZE \<and> f (bufferRef s) = Inr out \<and> out \<noteq> []"
  proof -
    from a have "runPrediction t r1 r2 s = infer_and_gate f (s\<lparr>lastPredictionTimeRef := t\<rparr>)"
      by (simp add: runPrediction_inference)
    also have "\<dots> =
       (let s1 = s\<lparr>lastPredictionTimeRef := t\<rparr>;
            s2 = s1\<lparr>inferenceCalls := inferenceCalls s1 + 1\<rparr>;
            p = \<lparr>label = array_get (classLabels s1) (safeIndex (classLabels s1) (snd (argmax out))),
                 confidence = fst (argmax out), isMock = False\<rparr>
        in if fst (argmax out) \<ge> CONFIDENCE_THRESHOLD then (Some p, s2\<lparr>prediction := Some p\<rparr>)
           else (None, s2))"
      using a by (subst infer_and_gate_output [where out = out]) (simp_all add: Let_def)
    finally show ?thesis by (simp add: Let_def get)
  qed
  show ?thesis
  proof (intro conjI impI)
    show "safeIndex (classLabels s) maxIndex \<le> int (length (classLabels s)) - 1"
      by (simp add: safeIndex_def)
    show "array_get (classLabels s) (safeIndex (classLabels s) maxIndex) =
        Some (classLabels s ! min maxIndex (length (classLabels s) - 1))"
      by (rule get)
    show "array_get (classLabels s) (safeIndex (classLabels s) maxIndex) =
        Some (last (classLabels s))" if "length (classLabels s) \<le> maxIndex"
      by (simp only: get beyond [OF that])
  next
    assume a: "model s = Some m \<and> isBufferFull s \<and> predict m = Some f
            \<and> \<not> t - lastPredictionTimeRef s < 200 \<and> \<not> mockModel m
            \<and> length (bufferRef s) = FRAME_BUFFER_SIZE \<and> f (bufferRef s) = Inr out \<and> out \<noteq> []"
    then show "snd (argmax out) < length out" by (simp add: argmax_index)
    show "\<forall>v \<in> set out. v \<le> fst (argmax out)" using argmax_is_max [of out] by blast
    show "runPrediction t r1 r2 s =
        (let s2 = s\<lparr>lastPredictionTimeRef := t, inferenceCalls := inferenceCalls s + 1\<rparr>;
             p = \<lparr>label = Some (classLabels s !
                       min (snd (argmax out)) (length (classLabels s) - 1)),
                  confidence = fst (argmax out), isMock = False\<rparr>
         in if fst (argmax out) \<ge> CONFIDENCE_THRESHOLD
            then (Some p, s2\<lparr>prediction := Some p\<rparr>) else (None, s2))"
      using a by (rule cycle)
    assume b: "length (classLabels s) \<le> snd (argmax out) \<and> fst (argmax out) \<ge> CONFIDENCE_THRESHOLD"
    then have "classLabels s ! min (snd (argmax out)) (length (classLabels s) - 1) =
        last (classLabels s)"
      by (simp only: beyond)
    with cycle [OF a] b show "fst (runPrediction t r1 r2 s) =
        Some \<lparr>label = Some (last (classLabels s)), confidence = fst (argmax out), isMock = False\<rparr>"
      by (simp add: Let_def)
  qed
qed

theorem label_index_clamped_witness:
  "fst (runPrediction 1000 0 0 (ready_state wide_output None)) =
     Some \<lparr>label = Some ''Now'', confidence = 9 / 10, isMock = False\<rparr>
   \<and> array_get (classLabels initial_state) (safeIndex (classLabels initial_state) 25) = Some ''Now''"
proof -
  let ?s = "ready_state wide_output None"
  have ne: "classLabels ?s \<noteq> []" "classLabels initial_state \<noteq> []"
    by (simp_all add: ready_state_def initial_state_def DEFAULT_CLASS_LABELS_def)
  have len: "length (classLabels ?s) = 20" "length (classLabels initial_state) = 20"
    by (simp_all add: ready_state_def initial_state_def DEFAULT_CLASS_LABELS_def)
  have lst: "last (classLabels ?s) = ''Now''" "last (classLabels initial_state) = ''Now''"
    by (simp_all add: ready_state_def initial_state_def DEFAULT_CLASS_LABELS_def)
  have pre: "model ?s = Some (const_model wide_output) \<and> isBufferFull ?s
      \<and> predict (const_model wide_output) = Some (\<lambda>buf. Inr wide_output)
      \<and> \<not> 1000 - lastPredictionTimeRef ?s < 200 \<and> \<not> mockModel (const_model wide_output)
      \<and> length (bufferRef ?s) = FRAME_BUFFER_SIZE
      \<and> (\<lambda>buf. Inr wide_output) (bufferRef ?s) = Inr wide_output \<and> wide_output \<noteq> []"
    by (simp add: ready_state_def const_model_def initial_state_def full_buffer_ok wide_output_def)
  have big: "length (classLabels ?s) \<le> snd (argmax wide_output)
      \<and> fst (argmax wide_output) \<ge> CONFIDENCE_THRESHOLD"
    by (simp add: len argmax_wide CONFIDENCE_THRESHOLD_def)
  note c = label_index_clamped [OF ne(1), of _ "const_model wide_output"
      "\<lambda>buf. Inr wide_output" 1000 wide_output 0 0]
  note c4 = c [THEN conjunct2, THEN conjunct2, THEN conjunct2, THEN mp, OF pre]
  note c5 = c4 [THEN conjunct2, THEN conjunct2, THEN conjunct2, THEN mp, OF big]
  from c5 have "fst (runPrediction 1000 0 0 ?s) =
      Some \<lparr>label = Some (last (classLabels ?s)), confidence = fst (argmax wide_output),
            isMock = False\<rparr>" .
  then have one: "fst (runPrediction 1000 0 0 ?s) =
     Some \<lparr>label = Some ''Now'', confidence = 9 / 10, isMock = False\<rparr>"
    by (simp add: lst argmax_wide)
  from label_index_clamped [OF ne(2), of 25, THEN conjunct2, THEN conjunct2, THEN conjunct1]
  have "length (classLabels initial_state) \<le> 25 \<longrightarrow>
      array_get (classLabels initial_state) (safeIndex (classLabels initial_state) 25) =
        Some (last (classLabels initial_state))" .
  then have two: "array_get (classLabels initial_state) (safeIndex (classLabels initial_state) 25) =
      Some ''Now''"
    by (simp add: len lst)
  from one two show ?thesis by (intro conjI)
qed

text \<open>
  Claim C4, as amended. The throttle window of 200 ms is measured from the last call
  that passed the throttle check. A call made less than 200 ms after that time returns
  \<^verbatim>\<open>null\<close> and leaves the whole state as it was: no inference is run and no prediction
  state changes. In particular, after a call at \<open>t1\<close> that passed the guards, a call at
  \<open>t2\<close> less than 200 ms later is such a call. Every call that runs inference runs
  exactly one, sets the reference time to its own time and is at least 200 ms after the
  previous reference time. A throttled call does not move the reference time, so the
  second of two calls less than 200 ms apart is throttled only when it comes less than
  200 ms after the reference time; the counterexample below has a second call that runs
  inference 16 ms after a throttled one.
\<close>

theorem prediction_throttled:
  "(t - lastPredictionTimeRef s < 200 \<longrightarrow> runPrediction t r1 r2 s = (None, s))
   \<and> (model s = Some m \<and> predict m = Some f \<and> isBufferFull s
        \<and> \<not> t1 - lastPredictionTimeRef s < 200 \<and> t2 - t1 < 200
      \<longrightarrow> lastPredictionTimeRef (snd (runPrediction t1 r1 r2 s)) = t1
          \<and> runPrediction t2 r3 r4 (snd (runPrediction t1 r1 r2 s)) =
               (None, snd (runPrediction t1 r1 r2 s))
          \<and> inferenceCalls (snd (runPrediction t2 r3 r4 (snd (runPrediction t1 r1 r2 s)))) =
               inferenceCalls (snd (runPrediction t1 r1 r2 s))
          \<and> prediction (snd (runPrediction t2 r3 r4 (snd (runPrediction t1 r1 r2 s)))) =
               prediction (snd (runPrediction t1 r1 r2 s))
          \<and> inferenceCalls (snd (runPrediction t1 r1 r2 s)) \<le> inferenceCalls s + 1)
   \<and> (inferenceCalls (snd (runPrediction t r1 r2 s)) \<noteq> inferenceCalls s
      \<longrightarrow> \<not> t - lastPredictionTimeRef s < 200
          \<and> lastPredictionTimeRef (snd (runPrediction t r1 r2 s)) = t
          \<and> inferenceCalls (snd (runPrediction t r1 r2 s)) = inferenceCalls s + 1)
   \<and> (lastPredictionTimeRef (snd (runPrediction t r1 r2 s)) \<noteq> lastPredictionTimeRef s
      \<longrightarrow> lastPredictionTimeRef (snd (runPrediction t r1 r2 s)) = t
          \<and> \<not> t - lastPredictionTimeRef s < 200)"
proof (intro conjI impI)
  assume "t - lastPredictionTimeRef s < 200"
  then show "runPrediction t r1 r2 s = (None, s)" by (rule runPrediction_throttled)
next
  assume a: "model s = Some m \<and> predict m = Some f \<and> isBufferFull s
        \<and> \<not> t1 - lastPredictionTimeRef s < 200 \<and> t2 - t1 < 200"
  then show time: "lastPredictionTimeRef (snd (runPrediction t1 r1 r2 s)) = t1"
    by (intro runPrediction_sets_time [of s m f]) simp_all
  with a show second: "runPrediction t2 r3 r4 (snd (runPrediction t1 r1 r2 s)) =
      (None, snd (runPrediction t1 r1 r2 s))"
    by (simp add: runPrediction_throttled)
  then show "inferenceCalls (snd (runPrediction t2 r3 r4 (snd (runPrediction t1 r1 r2 s)))) =
      inferenceCalls (snd (runPrediction t1 r1 r2 s))"
    by simp
  from second show "prediction (snd (runPrediction t2 r3 r4 (snd (runPrediction t1 r1 r2 s)))) =
      prediction (snd (runPrediction t1 r1 r2 s))"
    by simp
  from runPrediction_no_inference_or_executed [of t1 r1 r2 s]
  show "inferenceCalls (snd (runPrediction t1 r1 r2 s)) \<le> inferenceCalls s + 1"
    by auto
next
  assume ch: "inferenceCalls (snd (runPrediction t r1 r2 s)) \<noteq> inferenceCalls s"
  with runPrediction_no_inference_or_executed [of t r1 r2 s]
  have ex: "\<not> t - lastPredictionTimeRef s < 200
       \<and> lastPredictionTimeRef (snd (runPrediction t r1 r2 s)) = t
       \<and> inferenceCalls (snd (runPrediction t r1 r2 s)) \<le> inferenceCalls s + 1"
    by auto
  then show "\<not> t - lastPredictionTimeRef s < 200"
    and "lastPredictionTimeRef (snd (runPrediction t r1 r2 s)) = t" by simp_all
  have "inferenceCalls s \<le> inferenceCalls (snd (runPrediction t r1 r2 s))"
    by (simp add: runPrediction_def infer_and_gate_def Let_def mock_prediction_def
        split: option.splits sum.splits prod.splits)
  with ex ch show "inferenceCalls (snd (runPrediction t r1 r2 s)) = inferenceCalls s + 1"
    by linarith
next
  assume ch: "lastPredictionTimeRef (snd (runPrediction t r1 r2 s)) \<noteq> lastPredictionTimeRef s"
  with runPrediction_no_inference_or_executed [of t r1 r2 s]
  show "lastPredictionTimeRef (snd (runPrediction t r1 r2 s)) = t"
    and "\<not> t - lastPredictionTimeRef s < 200" by auto
qed

theorem prediction_throttled_witness:
  "runPrediction 1150 0 0 (snd (runPrediction 1000 0 0 (ready_state [1 / 10, 9 / 10] None))) =
     (None, snd (runPrediction 1000 0 0 (ready_state [1 / 10, 9 / 10] None)))
   \<and> inferenceCalls (snd (runPrediction 1150 0 0
        (snd (runPrediction 1000 0 0 (ready_state [1 / 10, 9 / 10] None))))) = 1"
proof -
  let ?s0 = "ready_state [1 / 10, 9 / 10] None"
  have pre: "model ?s0 = Some (const_model [1 / 10, 9 / 10])
      \<and> predict (const_model [1 / 10, 9 / 10]) = Some (\<lambda>buf. Inr [1 / 10, 9 / 10])
      \<and> isBufferFull ?s0 \<and> \<not> 1000 - lastPredictionTimeRef ?s0 < 200
      \<and> (1150::real) - 1000 < 200"
    by (simp add: ready_state_def const_model_def initial_state_def)
  have first: "inferenceCalls (snd (runPrediction 1000 0 0 ?s0)) = 1"
    using const_model_run [of ?s0 1000]
    by (simp add: ready_state_def initial_state_def)
  note th = prediction_throttled [where s = ?s0 and m = "const_model [1 / 10, 9 / 10]"
      and f = "\<lambda>buf. Inr [1 / 10, 9 / 10]" and ?t1.0 = 1000 and ?t2.0 = 1150
      and ?r1.0 = 0 and ?r2.0 = 0 and ?r3.0 = 0 and ?r4.0 = 0,
      THEN conjunct2, THEN conjunct1, THEN mp, OF pre]
  from th have "runPrediction 1150 0 0 (snd (runPrediction 1000 0 0 ?s0)) =
      (None, snd (runPrediction 1000 0 0 ?s0))"
    by (elim conjE)
  with first show ?thesis by simp
qed

theorem throttle_window_counterexample:
  "(1208::real) - 1192 < 200
   \<and> runPrediction 1192 0 0 (snd (runPrediction 1000 0 0 (ready_state [1 / 10, 9 / 10] None))) =
       (None, snd (runPrediction 1000 0 0 (ready_state [1 / 10, 9 / 10] None)))
   \<and> fst (runPrediction 1208 0 0 (snd (runPrediction 1192 0 0
        (snd (runPrediction 1000 0 0 (ready_state [1 / 10, 9 / 10] None)))))) \<noteq> None
   \<and> inferenceCalls (snd (runPrediction 1208 0 0 (snd (runPrediction 1192 0 0
        (snd (runPrediction 1000 0 0 (ready_state [1 / 10, 9 / 10] None))))))) =
       inferenceCalls (snd (runPrediction 1192 0 0
        (snd (runPrediction 1000 0 0 (ready_state [1 / 10, 9 / 10] None))))) + 1"
proof -
  let ?s0 = "ready_state [1 / 10, 9 / 10] None"
  let ?s1 = "snd (runPrediction 1000 0 0 ?s0)"
  have first: "lastPredictionTimeRef ?s1 = 1000
       \<and> model ?s1 = Some (const_model [1 / 10, 9 / 10])
       \<and> isBufferFull ?s1 \<and> bufferRef ?s1 = full_buffer"
    using const_model_run [of ?s0 1000]
    by (simp add: ready_state_def initial_state_def)
  then have second: "runPrediction 1192 0 0 ?s1 = (None, ?s1)"
    by (simp add: runPrediction_throttled)
  from first have "fst (runPrediction 1208 0 0 ?s1) \<noteq> None
       \<and> inferenceCalls (snd (runPrediction 1208 0 0 ?s1)) = inferenceCalls ?s1 + 1"
    using const_model_run [of ?s1 1208] by simp
  with second show ?thesis by simp
qed

text \<open>
  Claim C3, as amended. In the full hook, a cycle that reaches the arg-max returns and
  stores a prediction exactly when the arg-max confidence is at least
  \<open>CONFIDENCE_THRESHOLD\<close>; below it the call returns \<^verbatim>\<open>null\<close> and the stored prediction
  stays as it was. In the simplified hook a cycle always stores a prediction: the class
  label at or above the threshold, and the placeholder \<^verbatim>\<open>No confident prediction\<close> with
  the low confidence below it, replacing what was stored before.
\<close>

theorem confidence_gate:
  "(model s = Some m \<and> isBufferFull s \<and> predict m = Some f
      \<and> \<not> t - lastPredictionTimeRef s < 200 \<and> \<not> mockModel m
      \<and> length (bufferRef s) = FRAME_BUFFER_SIZE \<and> f (bufferRef s) = Inr out \<and> out \<noteq> []
    \<longrightarrow> runPrediction t r1 r2 s =
         (let s2 = s\<lparr>lastPredictionTimeRef := t, inferenceCalls := inferenceCalls s + 1\<rparr>;
              p = \<lparr>label = array_get (classLabels s) (safeIndex (classLabels s) (snd (argmax out))),
                   confidence = fst (argmax out), isMock = False\<rparr>
          in if fst (argmax out) \<ge> CONFIDENCE_THRESHOLD
             then (Some p, s2\<lparr>prediction := Some p\<rparr>) else (None, s2)))
   \<and> (model_s z = Some m' \<and> isBufferFull_s z
        \<and> simplified_inference m' (bufferRef_s z) = Inr out'
      \<longrightarrow> prediction_s (runPrediction_simplified z) =
           Some \<lparr>label_s = (if fst (argmax out') \<ge> CONFIDENCE_THRESHOLD
                             then output_label m' (snd (argmax out'))
                             else ''No confident prediction''),
                 confidence_s = fst (argmax out')\<rparr>)"
proof (intro conjI impI)
  assume a: "model s = Some m \<and> isBufferFull s \<and> predict m = Some f
      \<and> \<not> t - lastPredictionTimeRef s < 200 \<and> \<not> mockModel m
      \<and> length (bufferRef s) = FRAME_BUFFER_SIZE \<and> f (bufferRef s) = Inr out \<and> out \<noteq> []"
  then have "runPrediction t r1 r2 s = infer_and_gate f (s\<lparr>lastPredictionTimeRef := t\<rparr>)"
    by (simp add: runPrediction_inference)
  also have "\<dots> =
     (let s1 = s\<lparr>lastPredictionTimeRef := t\<rparr>;
          s2 = s1\<lparr>inferenceCalls := inferenceCalls s1 + 1\<rparr>;
          p = \<lparr>label = array_get (classLabels s1) (safeIndex (classLabels s1) (snd (argmax out))),
               confidence = fst (argmax out), isMock = False\<rparr>
      in if fst (argmax out) \<ge> CONFIDENCE_THRESHOLD then (Some p, s2\<lparr>prediction := Some p\<rparr>)
         else (None, s2))"
    using a by (subst infer_and_gate_output [where out = out]) (simp_all add: Let_def)
  finally show "runPrediction t r1 r2 s =
         (let s2 = s\<lparr>lastPredictionTimeRef := t, inferenceCalls := inferenceCalls s + 1\<rparr>;
              p = \<lparr>label = array_get (classLabels s) (safeIndex (classLabels s) (snd (argmax out))),
                   confidence = fst (argmax out), isMock = False\<rparr>
          in if fst (argmax out) \<ge> CONFIDENCE_THRESHOLD
             then (Some p, s2\<lparr>prediction := Some p\<rparr>) else (None, s2))"
    by (simp add: Let_def)
next
  assume "model_s z = Some m' \<and> isBufferFull_s z
        \<and> simplified_inference m' (bufferRef_s z) = Inr out'"
  then show "prediction_s (runPrediction_simplified z) =
           Some \<lparr>label_s = (if fst (argmax out') \<ge> CONFIDENCE_THRESHOLD
                             then output_label m' (snd (argmax out'))
                             else ''No confident prediction''),
                 confidence_s = fst (argmax out')\<rparr>"
    by (simp add: runPrediction_simplified_output)
qed

theorem confidence_gate_counterexample:
  "prediction_s (simplified_ready [69 / 100, 31 / 100] (Some hello_s)) = Some hello_s
   \<and> prediction_s (runPrediction_simplified (simplified_ready [69 / 100, 31 / 100] (Some hello_s))) =
       Some \<lparr>label_s = ''No confident prediction'', confidence_s = 69 / 100\<rparr>
   \<and> prediction_s (runPrediction_simplified (simplified_ready [69 / 100, 31 / 100] (Some hello_s)))
       \<noteq> prediction_s (simplified_ready [69 / 100, 31 / 100] (Some hello_s))"
  by (simp add: runPrediction_simplified_def simplified_ready_def simplified_inference_def
      full_buffer_ok const_model_def argmax_two CONFIDENCE_THRESHOLD_def hello_s_def Let_def)

theorem confidence_gate_witness:
  "runPrediction 1000 0 0 (ready_state [69 / 100, 31 / 100] (Some hello)) =
     (None, (ready_state [69 / 100, 31 / 100] (Some hello))
              \<lparr>lastPredictionTimeRef := 1000, inferenceCalls := 1\<rparr>)
   \<and> prediction (snd (runPrediction 1000 0 0 (ready_state [69 / 100, 31 / 100] (Some hello)))) =
       Some hello
   \<and> fst (runPrediction 1000 0 0 (ready_state [7 / 10, 3 / 10] (Some hello))) =
       Some \<lparr>label = Some ''Hello'', confidence = 7 / 10, isMock = False\<rparr>
   \<and> prediction (snd (runPrediction 1000 0 0 (ready_state [7 / 10, 3 / 10] (Some hello)))) =
       Some \<lparr>label = Some ''Hello'', confidence = 7 / 10, isMock = False\<rparr>
   \<and> prediction_s (runPrediction_simplified (simplified_ready [7 / 10, 3 / 10] None)) =
       Some \<lparr>label_s = ''class_0'', confidence_s = 7 / 10\<rparr>"
proof -
  have pre: "\<And>out prev. model (ready_state out prev) = Some (const_model out)
      \<and> isBufferFull (ready_state out prev)
      \<and> predict (const_model out) = Some (\<lambda>buf. Inr out)
      \<and> \<not> 1000 - lastPredictionTimeRef (ready_state out prev) < 200
      \<and> \<not> mockModel (const_model out)
      \<and> length (bufferRef (ready_state out prev)) = FRAME_BUFFER_SIZE"
    by (simp add: ready_state_def const_model_def initial_state_def full_buffer_ok)
  have pre_s: "\<And>out prev. model_s (simplified_ready out prev) = Some (const_model out)
      \<and> isBufferFull_s (simplified_ready out prev)
      \<and> simplified_inference (const_model out) (bufferRef_s (simplified_ready out prev)) = Inr out"
    by (simp add: simplified_ready_def simplified_inference_def const_model_def full_buffer_ok)
  have labels: "\<And>out prev. classLabels (ready_state out prev) = DEFAULT_CLASS_LABELS"
    "\<And>out prev. inferenceCalls (ready_state out prev) = 0"
    "\<And>out prev. prediction (ready_state out prev) = prev"
    by (simp_all add: ready_state_def initial_state_def)
  have first: "array_get DEFAULT_CLASS_LABELS (safeIndex DEFAULT_CLASS_LABELS 0) = Some ''Hello''"
    by (simp add: DEFAULT_CLASS_LABELS_def safeIndex_def array_get_def)
  have low: "runPrediction 1000 0 0 (ready_state [69 / 100, 31 / 100] (Some hello)) =
     (None, (ready_state [69 / 100, 31 / 100] (Some hello))
              \<lparr>lastPredictionTimeRef := 1000, inferenceCalls := 1\<rparr>)"
    using confidence_gate [of "ready_state [69 / 100, 31 / 100] (Some hello)"
        "const_model [69 / 100, 31 / 100]" "\<lambda>buf. Inr [69 / 100, 31 / 100]" 1000
        "[69 / 100, 31 / 100]" 0 0] pre [of "[69 / 100, 31 / 100]" "Some hello"]
    by (simp add: argmax_two CONFIDENCE_THRESHOLD_def labels Let_def)
  have high: "runPrediction 1000 0 0 (ready_state [7 / 10, 3 / 10] (Some hello)) =
     (Some \<lparr>label = Some ''Hello'', confidence = 7 / 10, isMock = False\<rparr>,
      (ready_state [7 / 10, 3 / 10] (Some hello))
        \<lparr>lastPredictionTimeRef := 1000, inferenceCalls := 1,
         prediction := Some \<lparr>label = Some ''Hello'', confidence = 7 / 10, isMock = False\<rparr>\<rparr>)"
    using confidence_gate [of "ready_state [7 / 10, 3 / 10] (Some hello)"
        "const_model [7 / 10, 3 / 10]" "\<lambda>buf. Inr [7 / 10, 3 / 10]" 1000
        "[7 / 10, 3 / 10]" 0 0] pre [of "[7 / 10, 3 / 10]" "Some hello"]
    by (simp add: argmax_two CONFIDENCE_THRESHOLD_def labels first Let_def)
  have simple: "prediction_s (runPrediction_simplified (simplified_ready [7 / 10, 3 / 10] None)) =
       Some \<lparr>label_s = ''class_0'', confidence_s = 7 / 10\<rparr>"
    using confidence_gate [where z = "simplified_ready [7 / 10, 3 / 10] None"
        and m' = "const_model [7 / 10, 3 / 10]" and out' = "[7 / 10, 3 / 10]"]
      pre_s [of "[7 / 10, 3 / 10]" None]
    by (simp add: argmax_two CONFIDENCE_THRESHOLD_def output_label_def const_model_def
        string_of_nat_0)
  from low high simple show ?thesis
    by (simp add: labels)
qed

section \<open>Retry with backoff: the delays and the number of attempts\<close>

lemma fetch_zip_fail:
  "fetch_error w (fetches w) = Some e \<Longrightarrow>
   fetch_zip (s, w) = (Inl e, (s, w\<lparr>fetches := fetches w + 1\<rparr>))"
  by (auto simp: fetch_zip_def fetch_error_def Let_def split: sum.splits if_splits)

lemma fetch_zip_ok:
  "fetchScript w (fetches w) = Inr resp \<Longrightarrow> ok resp \<Longrightarrow>
   fetch_zip (s, w) = (Inr resp, (s, w\<lparr>fetches := fetches w + 1\<rparr>))"
  by (simp add: fetch_zip_def Let_def)

lemma fetch_error_update [simp]:
  "fetch_error (w\<lparr>fetches := n\<rparr>) k = fetch_error w k"
  "fetch_error (w\<lparr>timeouts := ts\<rparr>) k = fetch_error w k"
  by (simp_all add: fetch_error_def)

lemma retry_success:
  "operation w = (Inr v, w1) \<Longrightarrow>
   retryWithBackoff operation retries baseDelay onRetry wait w = (Inr v, w1)"
  by (simp add: retryWithBackoff.simps)

lemma retry_exhausted:
  "operation w = (Inl e, w1) \<Longrightarrow> retries \<le> 0 \<Longrightarrow>
   retryWithBackoff operation retries baseDelay onRetry wait w = (Inl e, w1)"
  by (simp add: retryWithBackoff.simps)

lemma retry_again:
  "operation w = (Inl e, w1) \<Longrightarrow> 0 < retries \<Longrightarrow>
   retryWithBackoff operation retries baseDelay onRetry wait w =
     retryWithBackoff operation (retries - 1) baseDelay onRetry wait
       (wait (baseDelay * (2 powi (3 - retries))) (onRetry retries (baseDelay * (2 powi (3 - retries))) w1))"
  by (subst retryWithBackoff.simps) (simp add: Let_def)

lemma download_step_fail:
  assumes "fetch_error w (fetches w) = Some e" "0 < retries"
  shows "retryWithBackoff fetch_zip retries b download_onRetry set_timeout (s, w) =
     retryWithBackoff fetch_zip (retries - 1) b download_onRetry set_timeout
       (s\<lparr>modelLoadingStage := ''download-retry''\<rparr>,
        w\<lparr>fetches := fetches w + 1, timeouts := timeouts w @ [b * (2 powi (3 - retries))]\<rparr>)"
  using retry_again [where operation = fetch_zip and w = "(s, w)", OF fetch_zip_fail [OF assms(1)] assms(2), of b download_onRetry set_timeout]
  by (simp add: download_onRetry_def set_timeout_def)

lemma retry_all_failed:
  assumes "fetch_error w (fetches w) = Some e0" "fetch_error w (fetches w + 1) = Some e1"
    "fetch_error w (fetches w + 2) = Some e2" "fetch_error w (fetches w + 3) = Some e3"
  shows "retryWithBackoff fetch_zip 3 b download_onRetry set_timeout (s, w) =
     (Inl e3, (s\<lparr>modelLoadingStage := ''download-retry''\<rparr>,
               w\<lparr>fetches := fetches w + 4, timeouts := timeouts w @ [b, b * 2, b * 4]\<rparr>))"
proof -
  let ?s = "s\<lparr>modelLoadingStage := ''download-retry''\<rparr>"
  let ?w1 = "w\<lparr>fetches := fetches w + 1, timeouts := timeouts w @ [b]\<rparr>"
  let ?w2 = "w\<lparr>fetches := fetches w + 2, timeouts := timeouts w @ [b, b * 2]\<rparr>"
  let ?w3 = "w\<lparr>fetches := fetches w + 3, timeouts := timeouts w @ [b, b * 2, b * 4]\<rparr>"
  have "retryWithBackoff fetch_zip 3 b download_onRetry set_timeout (s, w) =
      retryWithBackoff fetch_zip 2 b download_onRetry set_timeout (?s, ?w1)"
    using download_step_fail [OF assms(1), of 3 b s] by (simp add: eval_nat_numeral)
  also have "\<dots> = retryWithBackoff fetch_zip 1 b download_onRetry set_timeout (?s, ?w2)"
    using download_step_fail [of ?w1 e1 2 b ?s] assms(2) by (simp add: eval_nat_numeral)
  also have "\<dots> = retryWithBackoff fetch_zip 0 b download_onRetry set_timeout (?s, ?w3)"
    using download_step_fail [of ?w2 e2 1 b ?s] assms(3) by (simp add: eval_nat_numeral)
  also have "\<dots> = (Inl e3, (?s, ?w3\<lparr>fetches := fetches ?w3 + 1\<rparr>))"
    using assms(4) by (intro retry_exhausted fetch_zip_fail) simp_all
  finally show ?thesis by (simp add: eval_nat_numeral)
qed

lemma fetchAndExtract_download_failed:
  "download_with_retry (s, w) = (Inl e, (s1, w1)) \<Longrightarrow>
   fetchAndExtract store ev s w = (Inl e, s1, w1)"
  by (simp add: fetchAndExtract_def)

lemma fetch_error_offline: "fetch_error offline k = Some (Error ''Failed to fetch'')"
  by (simp add: fetch_error_def offline_def)

lemma fetch_error_None:
  "fetch_error w k = None \<Longrightarrow> \<exists>resp. fetchScript w k = Inr resp \<and> ok resp"
  by (auto simp: fetch_error_def split: sum.splits if_splits)

lemma retry_prefix:
  "j \<le> 3 \<Longrightarrow> \<forall>k < j. fetch_error w (fetches w + k) \<noteq> None \<Longrightarrow>
   retryWithBackoff fetch_zip 3 b download_onRetry set_timeout (s, w) =
     retryWithBackoff fetch_zip (3 - int j) b download_onRetry set_timeout
       (if j = 0 then s else s\<lparr>modelLoadingStage := ''download-retry''\<rparr>,
        w\<lparr>fetches := fetches w + j, timeouts := timeouts w @ map (\<lambda>k. b * 2 ^ k) [0..<j]\<rparr>)"
proof (induction j)
  case 0
  show ?case by simp
next
  case (Suc j)
  let ?s = "if j = 0 then s else s\<lparr>modelLoadingStage := ''download-retry''\<rparr>"
  let ?w = "w\<lparr>fetches := fetches w + j, timeouts := timeouts w @ map (\<lambda>k. b * 2 ^ k) [0..<j]\<rparr>"
  from Suc.prems have j: "j \<le> 3" and prev: "\<forall>k < j. fetch_error w (fetches w + k) \<noteq> None"
    by auto
  from Suc.prems obtain e where e: "fetch_error w (fetches w + j) = Some e" by auto
  then have e': "fetch_error ?w (fetches ?w) = Some e" by simp
  from Suc.prems have pos: "0 < 3 - int j" by simp
  have pw: "(2::real) powi (3 - (3 - int j)) = 2 ^ j"
    by (simp add: power_int_def)
  have "retryWithBackoff fetch_zip 3 b download_onRetry set_timeout (s, w) =
      retryWithBackoff fetch_zip (3 - int j) b download_onRetry set_timeout (?s, ?w)"
    using Suc.IH [OF j prev] .
  also have "\<dots> = retryWithBackoff fetch_zip (3 - int j - 1) b download_onRetry set_timeout
       (?s\<lparr>modelLoadingStage := ''download-retry''\<rparr>,
        ?w\<lparr>fetches := fetches ?w + 1,
            timeouts := timeouts ?w @ [b * (2 powi (3 - (3 - int j)))]\<rparr>)"
    using e' pos by (rule download_step_fail)
  also have "\<dots> = retryWithBackoff fetch_zip (3 - int (Suc j)) b download_onRetry set_timeout
       (if Suc j = 0 then s else s\<lparr>modelLoadingStage := ''download-retry''\<rparr>,
        w\<lparr>fetches := fetches w + Suc j,
          timeouts := timeouts w @ map (\<lambda>k. b * 2 ^ k) [0..<Suc j]\<rparr>)"
    by (simp add: pw algebra_simps)
  finally show ?case .
qed

lemma retries_made_le: "retries_made w \<le> 3"
  by (simp add: retries_made_def)

lemma retries_made_prefix: "\<forall>k < retries_made w. fetch_error w (fetches w + k) \<noteq> None"
  by (auto simp: retries_made_def less_Suc_eq eval_nat_numeral)

lemma retries_made_stop:
  "fetch_error w (fetches w + retries_made w) \<noteq> None \<Longrightarrow> retries_made w = 3"
  by (auto simp: retries_made_def split: if_splits)

lemma retry_every_run:
  "retryWithBackoff fetch_zip 3 b download_onRetry set_timeout (s, w) =
     (download_outcome w,
      (if retries_made w = 0 then s else s\<lparr>modelLoadingStage := ''download-retry''\<rparr>,
       w\<lparr>fetches := fetches w + retries_made w + 1,
         timeouts := timeouts w @ map (\<lambda>k. b * 2 ^ k) [0..<retries_made w]\<rparr>))"
proof -
  let ?j = "retries_made w"
  let ?s = "if ?j = 0 then s else s\<lparr>modelLoadingStage := ''download-retry''\<rparr>"
  let ?w = "w\<lparr>fetches := fetches w + ?j, timeouts := timeouts w @ map (\<lambda>k. b * 2 ^ k) [0..<?j]\<rparr>"
  have pre: "retryWithBackoff fetch_zip 3 b download_onRetry set_timeout (s, w) =
      retryWithBackoff fetch_zip (3 - int ?j) b download_onRetry set_timeout (?s, ?w)"
    using retries_made_le retries_made_prefix by (rule retry_prefix)
  show ?thesis
  proof (cases "fetch_error w (fetches w + ?j)")
    case None
    then obtain resp where resp: "fetchScript w (fetches w + ?j) = Inr resp" "ok resp"
      using fetch_error_None by blast
    then have "fetch_zip (?s, ?w) = (Inr resp, (?s, ?w\<lparr>fetches := fetches ?w + 1\<rparr>))"
      by (intro fetch_zip_ok) simp_all
    then have "retryWithBackoff fetch_zip (3 - int ?j) b download_onRetry set_timeout (?s, ?w) =
        (Inr resp, (?s, ?w\<lparr>fetches := fetches ?w + 1\<rparr>))"
      by (rule retry_success)
    with pre None resp show ?thesis
      by (simp add: download_outcome_def)
  next
    case (Some e)
    then have j3: "?j = 3" using retries_made_stop by simp
    from Some have "fetch_zip (?s, ?w) = (Inl e, (?s, ?w\<lparr>fetches := fetches ?w + 1\<rparr>))"
      by (intro fetch_zip_fail) simp
    moreover have "3 - int ?j \<le> 0" using j3 by simp
    ultimately have "retryWithBackoff fetch_zip (3 - int ?j) b download_onRetry set_timeout (?s, ?w) =
        (Inl e, (?s, ?w\<lparr>fetches := fetches ?w + 1\<rparr>))"
      by (rule retry_exhausted)
    with pre Some show ?thesis
      by (simp add: download_outcome_def)
  qed
qed

lemma download_outcome_Inl:
  "download_outcome w = Inl e \<Longrightarrow>
   retries_made w = 3 \<and> fetch_error w (fetches w + 3) = Some e"
proof -
  assume a: "download_outcome w = Inl e"
  show ?thesis
  proof (cases "fetch_error w (fetches w + retries_made w)")
    case None
    then obtain resp where "fetchScript w (fetches w + retries_made w) = Inr resp"
      using fetch_error_None by blast
    with a None show ?thesis by (simp add: download_outcome_def)
  next
    case (Some e')
    then have "retries_made w = 3" using retries_made_stop by simp
    with a Some show ?thesis by (simp add: download_outcome_def)
  qed
qed

lemma flaky_run:
  "retries_made flaky = 1" "download_outcome flaky = Inr ok_response"
  "fetches flaky = 0" "timeouts flaky = []"
  by (simp_all add: retries_made_def download_outcome_def fetch_error_def flaky_def ok_response_def)

lemma offline_run:
  "retries_made offline = 3" "download_outcome offline = Inl (Error ''Failed to fetch'')"
  "fetches offline = 0" "timeouts offline = []"
  by (simp_all add: retries_made_def download_outcome_def fetch_error_offline)
     (simp_all add: offline_def)

text \<open>
  Claim C7, as amended. In every run the download is attempted once and, while it
  fails, retried up to three times, so at most four fetches are made. The delay before
  the \<open>k\<close>-th retry (\<open>k = 0, 1, 2\<close>) is \<open>base * 2 ^ k\<close>; the download stage passes the
  base delay of 500 ms (the default of \<^verbatim>\<open>retryWithBackoff\<close> is 300 ms), which gives
  500, 1000 and 2000 ms. The run ends with the first attempt that succeeds; when the
  fourth attempt fails too, its error is rethrown and the download-and-extract step fails
  with it.
\<close>

theorem download_retry_backoff:
  "retryWithBackoff fetch_zip 3 b download_onRetry set_timeout (s, w) =
     (download_outcome w,
      (if retries_made w = 0 then s else s\<lparr>modelLoadingStage := ''download-retry''\<rparr>,
       w\<lparr>fetches := fetches w + retries_made w + 1,
         timeouts := timeouts w @ map (\<lambda>k. b * 2 ^ k) [0..<retries_made w]\<rparr>))
   \<and> retries_made w \<le> 3
   \<and> download_with_retry (s, w) =
       (download_outcome w,
        (if retries_made w = 0 then s else s\<lparr>modelLoadingStage := ''download-retry''\<rparr>,
         w\<lparr>fetches := fetches w + retries_made w + 1,
           timeouts := timeouts w @ map (\<lambda>k. 500 * 2 ^ k) [0..<retries_made w]\<rparr>))
   \<and> (\<forall>e. download_outcome w = Inl e \<longrightarrow>
         retries_made w = 3 \<and> fetch_error w (fetches w + 3) = Some e
         \<and> fst (fetchAndExtract store ev s w) = Inl e)
   \<and> ((\<forall>k < 4. fetch_error w (fetches w + k) \<noteq> None) \<longrightarrow>
         (\<exists>e. fetch_error w (fetches w + 3) = Some e
            \<and> download_with_retry (s, w) =
                (Inl e, (s\<lparr>modelLoadingStage := ''download-retry''\<rparr>,
                         w\<lparr>fetches := fetches w + 4,
                           timeouts := timeouts w @ [500, 1000, 2000]\<rparr>))))"
proof (intro conjI allI impI)
  show "retryWithBackoff fetch_zip 3 b download_onRetry set_timeout (s, w) =
     (download_outcome w,
      (if retries_made w = 0 then s else s\<lparr>modelLoadingStage := ''download-retry''\<rparr>,
       w\<lparr>fetches := fetches w + retries_made w + 1,
         timeouts := timeouts w @ map (\<lambda>k. b * 2 ^ k) [0..<retries_made w]\<rparr>))"
    by (rule retry_every_run)
next
  show "retries_made w \<le> 3" by (rule retries_made_le)
next
  show "download_with_retry (s, w) =
       (download_outcome w,
        (if retries_made w = 0 then s else s\<lparr>modelLoadingStage := ''download-retry''\<rparr>,
         w\<lparr>fetches := fetches w + retries_made w + 1,
           timeouts := timeouts w @ map (\<lambda>k. 500 * 2 ^ k) [0..<retries_made w]\<rparr>))"
    unfolding download_with_retry_def by (rule retry_every_run)
next
  fix e assume "download_outcome w = Inl e"
  then show "retries_made w = 3" by (simp add: download_outcome_Inl)
next
  fix e assume "download_outcome w = Inl e"
  then show "fetch_error w (fetches w + 3) = Some e" by (simp add: download_outcome_Inl)
next
  fix e assume a: "download_outcome w = Inl e"
  have "download_with_retry (s, w) =
       (Inl e,
        (if retries_made w = 0 then s else s\<lparr>modelLoadingStage := ''download-retry''\<rparr>,
         w\<lparr>fetches := fetches w + retries_made w + 1,
           timeouts := timeouts w @ map (\<lambda>k. 500 * 2 ^ k) [0..<retries_made w]\<rparr>))"
    unfolding download_with_retry_def a [symmetric] by (rule retry_every_run)
  from fetchAndExtract_download_failed [OF this]
  show "fst (fetchAndExtract store ev s w) = Inl e" by simp
next
  assume all: "\<forall>k < 4. fetch_error w (fetches w + k) \<noteq> None"
  then obtain e0 e1 e2 e3 where e: "fetch_error w (fetches w) = Some e0"
      "fetch_error w (fetches w + 1) = Some e1" "fetch_error w (fetches w + 2) = Some e2"
      "fetch_error w (fetches w + 3) = Some e3"
  proof -
    have "(0::nat) < 4" "(1::nat) < 4" "(2::nat) < 4" "(3::nat) < 4" by simp_all
    with all have "fetch_error w (fetches w + 0) \<noteq> None" "fetch_error w (fetches w + 1) \<noteq> None"
      "fetch_error w (fetches w + 2) \<noteq> None" "fetch_error w (fetches w + 3) \<noteq> None"
      by blast+
    with that show ?thesis by auto
  qed
  from retry_all_failed [OF e, of 500 s]
  have "download_with_retry (s, w) =
                (Inl e3, (s\<lparr>modelLoadingStage := ''download-retry''\<rparr>,
                         w\<lparr>fetches := fetches w + 4,
                           timeouts := timeouts w @ [500, 1000, 2000]\<rparr>))"
    by (simp add: download_with_retry_def)
  with e(4) show "\<exists>e. fetch_error w (fetches w + 3) = Some e
            \<and> download_with_retry (s, w) =
                (Inl e, (s\<lparr>modelLoadingStage := ''download-retry''\<rparr>,
                         w\<lparr>fetches := fetches w + 4,
                           timeouts := timeouts w @ [500, 1000, 2000]\<rparr>))"
    by blast
qed

theorem download_retry_backoff_witness:
  "download_with_retry (initial_state, flaky) =
     (Inr ok_response,
      (initial_state\<lparr>modelLoadingStage := ''download-retry''\<rparr>,
       flaky\<lparr>fetches := 2, timeouts := [500]\<rparr>))
   \<and> download_with_retry (initial_state, offline) =
       (Inl (Error ''Failed to fetch''),
        (initial_state\<lparr>modelLoadingStage := ''download-retry''\<rparr>,
         offline\<lparr>fetches := 4, timeouts := [500, 1000, 2000]\<rparr>))"
proof -
  note f = download_retry_backoff [of 500 initial_state flaky]
  note g = download_retry_backoff [of 500 initial_state offline]
  from f have "download_with_retry (initial_state, flaky) =
       (download_outcome flaky,
        (if retries_made flaky = 0 then initial_state
         else initial_state\<lparr>modelLoadingStage := ''download-retry''\<rparr>,
         flaky\<lparr>fetches := fetches flaky + retries_made flaky + 1,
           timeouts := timeouts flaky @ map (\<lambda>k. 500 * 2 ^ k) [0..<retries_made flaky]\<rparr>))"
    by blast
  then have one: "download_with_retry (initial_state, flaky) =
     (Inr ok_response,
      (initial_state\<lparr>modelLoadingStage := ''download-retry''\<rparr>,
       flaky\<lparr>fetches := 2, timeouts := [500]\<rparr>))"
    by (simp add: flaky_run)
  from g have "download_with_retry (initial_state, offline) =
       (download_outcome offline,
        (if retries_made offline = 0 then initial_state
         else initial_state\<lparr>modelLoadingStage := ''download-retry''\<rparr>,
         offline\<lparr>fetches := fetches offline + retries_made offline + 1,
           timeouts := timeouts offline @ map (\<lambda>k. 500 * 2 ^ k) [0..<retries_made offline]\<rparr>))"
    by blast
  then have two: "download_with_retry (initial_state, offline) =
       (Inl (Error ''Failed to fetch''),
        (initial_state\<lparr>modelLoadingStage := ''download-retry''\<rparr>,
         offline\<lparr>fetches := 4, timeouts := [500, 1000, 2000]\<rparr>))"
    by (simp add: offline_run eval_nat_numeral)
  from one two show ?thesis by (intro conjI)
qed

theorem download_attempts_counterexample:
  "fetches (snd (snd (download_with_retry (initial_state, offline)))) = 4
   \<and> fetches (snd (snd (download_with_retry (initial_state, offline)))) \<noteq> 3"
proof -
  have z: "fetches offline = 0"
    by (simp add: offline_def)
  from retry_all_failed [OF fetch_error_offline fetch_error_offline
      fetch_error_offline fetch_error_offline, of 500 initial_state]
  show ?thesis by (simp add: download_with_retry_def z)
qed

section \<open>The session blob and the fall-through to the download\<close>

lemma fetch_zip_world:
  "snd (fetch_zip (s, w)) = (s, w\<lparr>fetches := fetches w + 1\<rparr>)"
  by (simp add: fetch_zip_def Let_def split: sum.splits)

lemma retry_fetches_grow:
  "fetches w < fetches (snd (snd (retryWithBackoff fetch_zip retries b download_onRetry set_timeout (s, w))))"
proof (induction "nat retries" arbitrary: retries s w)
  case 0
  obtain r where r: "fetch_zip (s, w) = (r, (s, w\<lparr>fetches := fetches w + 1\<rparr>))"
    using fetch_zip_world [of s w] by (cases "fetch_zip (s, w)") simp
  from 0 have "retries \<le> 0" by simp
  with r show ?case
    by (cases r) (simp_all add: retry_success retry_exhausted)
next
  case (Suc n)
  obtain r where r: "fetch_zip (s, w) = (r, (s, w\<lparr>fetches := fetches w + 1\<rparr>))"
    using fetch_zip_world [of s w] by (cases "fetch_zip (s, w)") simp
  from Suc.hyps(2) have pos: "0 < retries" and n: "n = nat (retries - 1)" by simp_all
  show ?case
  proof (cases r)
    case (Inr resp)
    with r show ?thesis by (simp add: retry_success)
  next
    case (Inl e)
    let ?s = "s\<lparr>modelLoadingStage := ''download-retry''\<rparr>"
    let ?w = "w\<lparr>fetches := fetches w + 1, timeouts := timeouts w @ [b * (2 powi (3 - retries))]\<rparr>"
    from Inl r pos have "retryWithBackoff fetch_zip retries b download_onRetry set_timeout (s, w) =
        retryWithBackoff fetch_zip (retries - 1) b download_onRetry set_timeout (?s, ?w)"
      by (simp add: retry_again download_onRetry_def set_timeout_def)
    moreover from Suc.hyps(1) [OF n, of ?w ?s]
    have "fetches ?w < fetches (snd (snd
        (retryWithBackoff fetch_zip (retries - 1) b download_onRetry set_timeout (?s, ?w))))" .
    ultimately show ?thesis by simp
  qed
qed

lemma fetchAndExtract_fetches:
  "fetches (snd (snd (fetchAndExtract storeModelDataInSession_v2 ev s w))) =
   fetches (snd (snd (download_with_retry (s, w))))"
  by (cases "download_with_retry (s, w)")
     (auto simp: fetchAndExtract_def Let_def storeModelDataInSession_v2_def
        split: sum.splits option.splits prod.splits)

lemma fetchAndExtract_fetches_grow:
  "fetches w < fetches (snd (snd (fetchAndExtract storeModelDataInSession_v2 ev s w)))"
  by (simp add: fetchAndExtract_fetches download_with_retry_def retry_fetches_grow)

lemma downloadAndExtract_fallthrough:
  assumes "zipCacheRef s = None"
    and "fst (session_attempt getSession ev (s\<lparr>modelLoadingStage := ''downloading''\<rparr>) w) = None"
  shows "downloadAndExtract getSession store ev s w =
     fetchAndExtract store ev
       (snd (session_attempt getSession ev (s\<lparr>modelLoadingStage := ''downloading''\<rparr>) w)) w"
  using assms
  by (cases "session_attempt getSession ev (s\<lparr>modelLoadingStage := ''downloading''\<rparr>) w")
     (simp add: downloadAndExtract_def Let_def)

lemma session_get_version_mismatch:
  "sessionStorage w ''modelZipVersion'' \<noteq> Some CACHE_KEY \<Longrightarrow>
   getModelDataFromSession_v2 ev w = None"
  by (simp add: getModelDataFromSession_v2_def Let_def)

lemma session_get_stale:
  "sessionStorage w ''modelZipTimestamp'' = Some ts \<Longrightarrow> parseInt ev ts = Some t \<Longrightarrow>
   60 * 60 * 1000 \<le> now w - t \<Longrightarrow> getModelDataFromSession_v2 ev w = None"
  by (simp add: getModelDataFromSession_v2_def Let_def)

lemma session_attempt_none:
  "getSession ev w = None \<Longrightarrow> session_attempt getSession ev s w = (None, s)"
  by (simp add: session_attempt_def)

lemma session_attempt_invalid:
  "getSession ev w = Some data \<Longrightarrow>
   isl (loadAsync ev data) \<or> \<not> has_descriptor (projr (loadAsync ev data)) \<Longrightarrow>
   fst (session_attempt getSession ev s w) = None"
  by (cases "loadAsync ev data") (auto simp: session_attempt_def Let_def)

text \<open>
  Claim C8. With no archive cached in memory, a session blob is rejected when its
  version tag differs from the current cache key, when it is an hour old or older, or when
  the cached bytes do not extract to an archive that holds a descriptor. In each case the
  session attempt yields no archive and without throwing hands over to the fresh download:
  the result of the whole step is the result of the download, and at least one fetch is
  made.
\<close>

theorem session_blob_rejected:
  assumes "zipCacheRef s = None"
    and "sessionStorage w ''modelZipVersion'' \<noteq> Some CACHE_KEY
       \<or> (\<exists>ts t. sessionStorage w ''modelZipTimestamp'' = Some ts \<and> parseInt ev ts = Some t
              \<and> 60 * 60 * 1000 \<le> now w - t)
       \<or> (\<exists>data. getModelDataFromSession_v2 ev w = Some data
              \<and> (isl (loadAsync ev data) \<or> \<not> has_descriptor (projr (loadAsync ev data))))"
  shows "fst (session_attempt getModelDataFromSession_v2 ev
                (s\<lparr>modelLoadingStage := ''downloading''\<rparr>) w) = None
       \<and> downloadAndExtractModelZip_v2 ev s w =
           fetchAndExtract storeModelDataInSession_v2 ev
             (snd (session_attempt getModelDataFromSession_v2 ev
                     (s\<lparr>modelLoadingStage := ''downloading''\<rparr>) w)) w
       \<and> fetches w < fetches (snd (snd (downloadAndExtractModelZip_v2 ev s w)))"
proof -
  let ?s1 = "s\<lparr>modelLoadingStage := ''downloading''\<rparr>"
  from assms(2) consider
      (version) "sessionStorage w ''modelZipVersion'' \<noteq> Some CACHE_KEY"
    | (stale) ts t where "sessionStorage w ''modelZipTimestamp'' = Some ts"
        "parseInt ev ts = Some t" "60 * 60 * 1000 \<le> now w - t"
    | (invalid) data where "getModelDataFromSession_v2 ev w = Some data"
        "isl (loadAsync ev data) \<or> \<not> has_descriptor (projr (loadAsync ev data))"
    by blast
  then have none: "fst (session_attempt getModelDataFromSession_v2 ev ?s1 w) = None"
  proof cases
    case version
    then show ?thesis
      by (simp add: session_get_version_mismatch session_attempt_none)
  next
    case stale
    then have "getModelDataFromSession_v2 ev w = None" by (rule session_get_stale)
    then show ?thesis by (simp add: session_attempt_none)
  next
    case invalid
    then show ?thesis by (rule session_attempt_invalid)
  qed
  have fall: "downloadAndExtractModelZip_v2 ev s w =
      fetchAndExtract storeModelDataInSession_v2 ev
        (snd (session_attempt getModelDataFromSession_v2 ev ?s1 w)) w"
    unfolding downloadAndExtractModelZip_v2_def
    using assms(1) none by (rule downloadAndExtract_fallthrough)
  from none fall show ?thesis
    by (simp add: fetchAndExtract_fetches_grow)
qed


lemma fetchAndExtract_success:
  assumes "fetchScript w (fetches w) = Inr resp" "ok resp" "bodyError resp = None"
    "loadAsync ev (concat (chunks resp)) = Inr zc" "has_descriptor zc"
  shows "fst (fetchAndExtract store ev s w) = Inr zc"
proof -
  have "download_with_retry (s, w) = (Inr resp, (s, w\<lparr>fetches := fetches w + 1\<rparr>))"
    unfolding download_with_retry_def
    by (intro retry_success fetch_zip_ok assms(1,2))
  then show ?thesis
    using assms(3-5) by (simp add: fetchAndExtract_def Let_def)
qed

lemma sample_archive_descriptor: "has_descriptor sample_archive"
  by (simp add: has_descriptor_def sample_archive_def)

lemma online_fetch_success:
  "fst (fetchAndExtract store test_env s (online storage)) = Inr sample_archive"
  by (rule fetchAndExtract_success [where resp = "\<lparr>ok = True, status = 200, statusText = ''OK'',
        contentLength = Some 3, chunks = [[80, 75, 3]], bodyError = None\<rparr>"])
     (simp_all add: online_def test_env_def sample_archive_descriptor)

theorem session_blob_rejected_witness:
  "fst (downloadAndExtractModelZip_v2 test_env initial_state (online old_version_blob)) =
     Inr sample_archive
   \<and> fst (downloadAndExtractModelZip_v2 test_env initial_state (online stale_blob)) =
       Inr sample_archive
   \<and> fst (downloadAndExtractModelZip_v2 test_env initial_state (online corrupt_blob)) =
       Inr sample_archive
   \<and> 0 < fetches (snd (snd
         (downloadAndExtractModelZip_v2 test_env initial_state (online corrupt_blob))))"
proof -
  have cache: "zipCacheRef initial_state = None"
    by (simp add: initial_state_def)
  have v: "sessionStorage (online old_version_blob) ''modelZipVersion'' \<noteq> Some CACHE_KEY"
    by (simp add: online_def old_version_blob_def CACHE_KEY_def)
  have st: "\<exists>ts t. sessionStorage (online stale_blob) ''modelZipTimestamp'' = Some ts
      \<and> parseInt test_env ts = Some t \<and> 60 * 60 * 1000 \<le> now (online stale_blob) - t"
    by (simp add: online_def stale_blob_def test_env_def)
  have co: "\<exists>data. getModelDataFromSession_v2 test_env (online corrupt_blob) = Some data
      \<and> (isl (loadAsync test_env data) \<or> \<not> has_descriptor (projr (loadAsync test_env data)))"
    by (simp add: getModelDataFromSession_v2_def online_def corrupt_blob_def test_env_def
        truthy_def Let_def)
  note r1 = session_blob_rejected [of initial_state "online old_version_blob" test_env, OF cache]
  note r2 = session_blob_rejected [of initial_state "online stale_blob" test_env, OF cache]
  note r3 = session_blob_rejected [of initial_state "online corrupt_blob" test_env, OF cache]
  from r1 v have "fst (downloadAndExtractModelZip_v2 test_env initial_state (online old_version_blob)) =
     Inr sample_archive"
    by (simp add: online_fetch_success)
  moreover from r2 st have "fst (downloadAndExtractModelZip_v2 test_env initial_state (online stale_blob)) =
     Inr sample_archive"
    by (simp add: online_fetch_success)
  moreover from r3 co have "fst (downloadAndExtractModelZip_v2 test_env initial_state (online corrupt_blob)) =
     Inr sample_archive"
    by (simp add: online_fetch_success)
  moreover have "0 < fetches (snd (snd
         (downloadAndExtractModelZip_v2 test_env initial_state (online corrupt_blob))))"
  proof -
    from r3 co have "fetches (online corrupt_blob) < fetches (snd (snd
         (downloadAndExtractModelZip_v2 test_env initial_state (online corrupt_blob))))"
      by blast
    then show ?thesis by linarith
  qed
  ultimately show ?thesis by (intro conjI)
qed

section \<open>Weight assembly: order and candidate paths\<close>

lemma total_length_foldl:
  "foldl (\<lambda>acc buf. acc + length buf) n buffers = n + length (concat buffers)"
  by (induction buffers arbitrary: n) simp_all

lemma copy_buffers_concat:
  "offset + length (concat bufs) \<le> length view \<Longrightarrow>
   copy_buffers view offset bufs =
     take offset view @ concat bufs @ drop (offset + length (concat bufs)) view"
proof (induction bufs arbitrary: view offset)
  case Nil
  then show ?case by simp
next
  case (Cons buf bufs)
  let ?view = "typed_array_set view buf offset"
  from Cons.prems have len: "length ?view = length view"
    by (simp add: typed_array_set_def)
  from Cons.prems have tk: "take (offset + length buf) ?view = take offset view @ buf"
    by (simp add: typed_array_set_def)
  from Cons.prems have dr: "drop (offset + (length buf + length (concat bufs))) ?view =
      drop (offset + (length buf + length (concat bufs))) view"
    by (simp add: typed_array_set_def ac_simps)
  have "copy_buffers ?view (offset + length buf) bufs =
      take (offset + length buf) ?view @ concat bufs
        @ drop (offset + length buf + length (concat bufs)) ?view"
    using Cons.prems by (intro Cons.IH) (simp add: len)
  then show ?case
    by (simp add: tk dr add.assoc)
qed

lemma concatenate_buffers_concat: "concatenate_buffers buffers = concat buffers"
  by (simp add: concatenate_buffers_def Let_def total_length_foldl copy_buffers_concat)

lemma promise_all_Inr: "promise_all (map Inr vs) = Inr vs"
  by (induction vs) simp_all

lemma promise_all_rejected:
  "r \<in> set rs \<Longrightarrow> isl r \<Longrightarrow> isl (promise_all rs)"
  by (induction rs) (auto split: sum.splits)

lemma load_weight_file_found:
  "find_weight_file files (possiblePaths modelDir path) \<noteq> None \<Longrightarrow>
   snd (load_weight_file files modelDir path) = Inr (resolved_bytes files modelDir path)"
  by (auto simp: load_weight_file_def resolved_bytes_def split: option.splits)

lemma load_group_resolved:
  assumes "\<forall>p \<in> set (paths grp). find_weight_file files (possiblePaths modelDir p) \<noteq> None"
  shows "snd (load_group files modelDir grp) =
     Inr (concat (map (resolved_bytes files modelDir) (paths grp)))"
proof -
  have "map snd (map (load_weight_file files modelDir) (paths grp)) =
      map Inr (map (resolved_bytes files modelDir) (paths grp))"
    unfolding map_map by (rule map_cong) (simp_all add: assms load_weight_file_found)
  then show ?thesis
    unfolding load_group_def Let_def snd_conv
    by (simp only: promise_all_Inr sum.case concatenate_buffers_concat)
qed

lemma load_weights_resolved:
  assumes "\<forall>g \<in> set manifest. \<forall>p \<in> set (paths g).
             find_weight_file files (possiblePaths modelDir p) \<noteq> None"
  shows "snd (load_weights files modelDir manifest) =
     Inr (concat (map (resolved_bytes files modelDir) (concat (map paths manifest))))"
proof -
  have "map snd (map (load_group files modelDir) manifest) =
      map Inr (map (\<lambda>g. concat (map (resolved_bytes files modelDir) (paths g))) manifest)"
    unfolding map_map by (rule map_cong) (simp_all add: assms load_group_resolved)
  then have "snd (load_weights files modelDir manifest) =
      Inr (concat (map (\<lambda>g. concat (map (resolved_bytes files modelDir) (paths g))) manifest))"
    unfolding load_weights_def Let_def snd_conv
    by (simp only: promise_all_Inr sum.case concatenate_buffers_concat)
  also have "concat (map (\<lambda>g. concat (map (resolved_bytes files modelDir) (paths g))) manifest) =
      concat (map (resolved_bytes files modelDir) (concat (map paths manifest)))"
    by (induction manifest) simp_all
  finally show ?thesis .
qed

lemma createZipIOHandler_load_weightData:
  assumes "find (\<lambda>name. suffix ''model.json'' name \<or> name = ''model.json'') (map fst zc) = Some f"
    and "map_of zc f = Some content" and "parseModelJson ev content = Inr json"
    and "snd (load_weights zc (dir_of f) (weightsManifest json)) = Inr wd"
  shows "\<exists>a. snd (fst (createZipIOHandler_load ev zc s)) = Inr a \<and> weightData a = wd"
  using assms by (simp add: createZipIOHandler_load_def Let_def)

text \<open>
  Claim C5. When every weight path of the manifest resolves, the assembled weight data
  is the concatenation of the resolved files, group after group in manifest order and
  path after path within a group; for two groups with the paths \<open>[a, b]\<close> and \<open>[c]\<close> it
  is \<open>bytes a @ bytes b @ bytes c\<close>. The artifacts returned by the handler carry exactly
  this buffer.
\<close>

theorem weight_assembly_order:
  assumes "\<forall>g \<in> set manifest. \<forall>p \<in> set (paths g).
             find_weight_file files (possiblePaths modelDir p) \<noteq> None"
  shows "snd (load_weights files modelDir manifest) =
           Inr (concat (map (resolved_bytes files modelDir) (concat (map paths manifest))))
       \<and> (\<forall>g1 g2 a b c. manifest = [g1, g2] \<and> paths g1 = [a, b] \<and> paths g2 = [c] \<longrightarrow>
            snd (load_weights files modelDir manifest) =
              Inr (resolved_bytes files modelDir a @ resolved_bytes files modelDir b
                   @ resolved_bytes files modelDir c))
       \<and> (\<forall>f content json.
            find (\<lambda>name. suffix ''model.json'' name \<or> name = ''model.json'') (map fst files) = Some f
            \<and> map_of files f = Some content \<and> parseModelJson ev content = Inr json
            \<and> weightsManifest json = manifest \<and> dir_of f = modelDir \<longrightarrow>
            (\<exists>art. snd (fst (createZipIOHandler_load ev files s)) = Inr art
               \<and> weightData art =
                   concat (map (resolved_bytes files modelDir) (concat (map paths manifest)))))"
proof (intro conjI allI impI)
  show all: "snd (load_weights files modelDir manifest) =
           Inr (concat (map (resolved_bytes files modelDir) (concat (map paths manifest))))"
    using assms by (rule load_weights_resolved)
  fix g1 g2 :: weights_group and a b c
  assume "manifest = [g1, g2] \<and> paths g1 = [a, b] \<and> paths g2 = [c]"
  with all show "snd (load_weights files modelDir manifest) =
              Inr (resolved_bytes files modelDir a @ resolved_bytes files modelDir b
                   @ resolved_bytes files modelDir c)"
    by simp
next
  fix f content json
  assume a: "find (\<lambda>name. suffix ''model.json'' name \<or> name = ''model.json'') (map fst files) = Some f
            \<and> map_of files f = Some content \<and> parseModelJson ev content = Inr json
            \<and> weightsManifest json = manifest \<and> dir_of f = modelDir"
  then have "snd (load_weights files (dir_of f) (weightsManifest json)) =
      Inr (concat (map (resolved_bytes files modelDir) (concat (map paths manifest))))"
    using load_weights_resolved [OF assms] by simp
  with a show "\<exists>art. snd (fst (createZipIOHandler_load ev files s)) = Inr art
               \<and> weightData art =
                   concat (map (resolved_bytes files modelDir) (concat (map paths manifest)))"
    by (intro createZipIOHandler_load_weightData [of files f content ev json]) simp_all
qed

theorem weight_assembly_order_witness:
  "snd (load_weights sample_archive [] sample_manifest) = Inr [1, 2, 3, 4, 5]"
proof -
  have found: "\<forall>g \<in> set sample_manifest. \<forall>p \<in> set (paths g).
      find_weight_file sample_archive (possiblePaths [] p) \<noteq> None"
    by (simp add: sample_manifest_def sample_archive_def possiblePaths_def strip_dot_slash_def)
  have bytes: "resolved_bytes sample_archive [] ''a.bin'' = [1, 2]"
    "resolved_bytes sample_archive [] ''b.bin'' = [3]"
    "resolved_bytes sample_archive [] ''c.bin'' = [4, 5]"
    by (simp_all add: resolved_bytes_def sample_archive_def possiblePaths_def strip_dot_slash_def)
  from weight_assembly_order [OF found]
  have "snd (load_weights sample_archive [] sample_manifest) =
      Inr (concat (map (resolved_bytes sample_archive []) (concat (map paths sample_manifest))))"
    by (rule conjunct1)
  then show ?thesis
    by (simp add: sample_manifest_def bytes)
qed

lemma find_weight_file_first:
  "find_weight_file files cs = Some (c, b) \<longleftrightarrow>
     (\<exists>k < length cs. c = cs ! k \<and> map_of files c = Some b
        \<and> (\<forall>j < k. map_of files (cs ! j) = None))"
proof (induction cs)
  case Nil
  show ?case by simp
next
  case (Cons t cs)
  show ?case
  proof (cases "map_of files t")
    case None
    have "(\<exists>k < length (t # cs). c = (t # cs) ! k \<and> map_of files c = Some b
            \<and> (\<forall>j < k. map_of files ((t # cs) ! j) = None))
        \<longleftrightarrow> (\<exists>k < length cs. c = cs ! k \<and> map_of files c = Some b
            \<and> (\<forall>j < k. map_of files (cs ! j) = None))"
      (is "?L \<longleftrightarrow> ?R")
    proof
      assume ?L
      then obtain k where k: "k < length (t # cs)" "c = (t # cs) ! k" "map_of files c = Some b"
        "\<forall>j < k. map_of files ((t # cs) ! j) = None" by blast
      with None obtain k' where k': "k = Suc k'" by (cases k) auto
      with k have "k' < length cs" "c = cs ! k'" by simp_all
      moreover from k(4) k' have "\<forall>j < k'. map_of files (cs ! j) = None" by auto
      ultimately show ?R using k(3) by blast
    next
      assume ?R
      then obtain k where k: "k < length cs" "c = cs ! k" "map_of files c = Some b"
        "\<forall>j < k. map_of files (cs ! j) = None" by blast
      have "\<forall>j < Suc k. map_of files ((t # cs) ! j) = None"
        using None k(4) by (auto simp: less_Suc_eq_0_disj)
      with k show ?L by (intro exI [of _ "Suc k"]) simp
    qed
    with None Cons.IH show ?thesis by simp
  next
    case (Some w)
    have "(\<exists>k < length (t # cs). c = (t # cs) ! k \<and> map_of files c = Some b
            \<and> (\<forall>j < k. map_of files ((t # cs) ! j) = None)) \<longleftrightarrow> (c = t \<and> b = w)"
      (is "?L \<longleftrightarrow> ?R")
    proof
      assume ?L
      then obtain k where k: "k < length (t # cs)" "c = (t # cs) ! k" "map_of files c = Some b"
        "\<forall>j < k. map_of files ((t # cs) ! j) = None" by blast
      have "k = 0"
      proof (rule ccontr)
        assume "k \<noteq> 0"
        with k(4) have "map_of files ((t # cs) ! 0) = None" by blast
        with Some show False by simp
      qed
      with k Some show ?R by simp
    next
      assume ?R
      with Some show ?L by (intro exI [of _ 0]) simp
    qed
    with Some show ?thesis by auto
  qed
qed

lemma find_weight_file_none:
  "find_weight_file files cs = None \<longleftrightarrow> (\<forall>c \<in> set cs. map_of files c = None)"
  by (induction cs) (auto split: option.splits)

lemma load_group_rejected:
  assumes "p \<in> set (paths grp)" "find_weight_file files (possiblePaths modelDir p) = None"
  shows "isl (snd (load_group files modelDir grp))"
proof -
  have "isl (snd (load_weight_file files modelDir p))"
    using assms(2) by (simp add: load_weight_file_def)
  with assms(1) have "isl (promise_all (map snd (map (load_weight_file files modelDir) (paths grp))))"
    by (intro promise_all_rejected [of "snd (load_weight_file files modelDir p)"]) auto
  then show ?thesis
    by (auto simp: load_group_def Let_def split: sum.splits)
qed

lemma load_weights_rejected:
  assumes "g \<in> set manifest" "p \<in> set (paths g)"
    "find_weight_file files (possiblePaths modelDir p) = None"
  shows "isl (snd (load_weights files modelDir manifest))"
proof -
  have "isl (snd (load_group files modelDir g))"
    using assms(2,3) by (rule load_group_rejected)
  with assms(1) have "isl (promise_all (map snd (map (load_group files modelDir) manifest)))"
    by (intro promise_all_rejected [of "snd (load_group files modelDir g)"]) auto
  then show ?thesis
    by (auto simp: load_weights_def Let_def split: sum.splits)
qed

text \<open>
  Claim C6, as amended. For a weight path the assembler tries exactly five candidate
  keys in this order: the descriptor's directory followed by the path, the path itself,
  \<^verbatim>\<open>model/\<close> and \<^verbatim>\<open>assets/\<close> followed by the path, and the path without a leading
  \<^verbatim>\<open>./\<close>. The first candidate present in the archive wins. When none is present the
  assembly fails with an error that names the manifest path only; the five attempted
  candidates are written to the console error log.
\<close>

theorem candidate_path_resolution:
  "possiblePaths modelDir path =
     [modelDir @ path, path, ''model/'' @ path, ''assets/'' @ path, strip_dot_slash path]
   \<and> (\<forall>c b. find_weight_file files (possiblePaths modelDir path) = Some (c, b) \<longleftrightarrow>
         (\<exists>k < 5. c = possiblePaths modelDir path ! k \<and> map_of files c = Some b
            \<and> (\<forall>j < k. map_of files (possiblePaths modelDir path ! j) = None)))
   \<and> (\<forall>c b. find_weight_file files (possiblePaths modelDir path) = Some (c, b) \<longrightarrow>
         load_weight_file files modelDir path =
           ([ConsoleLog (''Found weight file at path: '' @ c)], Inr b))
   \<and> ((\<forall>c \<in> set (possiblePaths modelDir path). map_of files c = None) \<longrightarrow>
         load_weight_file files modelDir path =
           ([ConsoleError ''Attempted paths:'' (possiblePaths modelDir path)],
            Inl (Error (''Weight file not found in ZIP for path: '' @ path)))
         \<and> (\<forall>manifest g. g \<in> set manifest \<and> path \<in> set (paths g) \<longrightarrow>
               isl (snd (load_weights files modelDir manifest))))"
proof (intro conjI allI impI)
  show "possiblePaths modelDir path =
     [modelDir @ path, path, ''model/'' @ path, ''assets/'' @ path, strip_dot_slash path]"
    by (simp add: possiblePaths_def)
next
  fix c b
  have "length (possiblePaths modelDir path) = 5" by (simp add: possiblePaths_def)
  with find_weight_file_first [of files "possiblePaths modelDir path" c b]
  show "find_weight_file files (possiblePaths modelDir path) = Some (c, b) \<longleftrightarrow>
         (\<exists>k < 5. c = possiblePaths modelDir path ! k \<and> map_of files c = Some b
            \<and> (\<forall>j < k. map_of files (possiblePaths modelDir path ! j) = None))"
    by simp
next
  fix c b
  assume "find_weight_file files (possiblePaths modelDir path) = Some (c, b)"
  then show "load_weight_file files modelDir path =
           ([ConsoleLog (''Found weight file at path: '' @ c)], Inr b)"
    by (simp add: load_weight_file_def)
next
  assume "\<forall>c \<in> set (possiblePaths modelDir path). map_of files c = None"
  then have "find_weight_file files (possiblePaths modelDir path) = None"
    by (simp add: find_weight_file_none)
  then show "load_weight_file files modelDir path =
           ([ConsoleError ''Attempted paths:'' (possiblePaths modelDir path)],
            Inl (Error (''Weight file not found in ZIP for path: '' @ path)))"
    by (simp add: load_weight_file_def)
next
  fix manifest :: "weights_group list" and g :: weights_group
  assume "\<forall>c \<in> set (possiblePaths modelDir path). map_of files c = None"
    and "g \<in> set manifest \<and> path \<in> set (paths g)"
  then show "isl (snd (load_weights files modelDir manifest))"
    by (intro load_weights_rejected [of g manifest path]) (simp_all add: find_weight_file_none)
qed

theorem candidate_error_counterexample:
  "snd (load_weight_file [] [] ''group1.bin'') =
     Inl (Error ''Weight file not found in ZIP for path: group1.bin'')
   \<and> ''assets/group1.bin'' \<in> set (possiblePaths [] ''group1.bin'')
   \<and> \<not> str_includes ''Weight file not found in ZIP for path: group1.bin'' ''assets/group1.bin''"
  by (simp add: load_weight_file_def possiblePaths_def strip_dot_slash_def)

theorem candidate_path_resolution_witness:
  "load_weight_file [(''assets/group1.bin'', [7])] [] ''group1.bin'' =
     ([ConsoleLog ''Found weight file at path: assets/group1.bin''], Inr [7])
   \<and> load_weight_file [] ''dir/'' ''./group1.bin'' =
       ([ConsoleError ''Attempted paths:''
           [''dir/./group1.bin'', ''./group1.bin'', ''model/./group1.bin'',
            ''assets/./group1.bin'', ''group1.bin'']],
        Inl (Error ''Weight file not found in ZIP for path: ./group1.bin''))"
proof -
  have found: "find_weight_file [(''assets/group1.bin'', [7])] (possiblePaths [] ''group1.bin'') =
      Some (''assets/group1.bin'', [7])"
    by (simp add: possiblePaths_def strip_dot_slash_def)
  have absent: "\<forall>c \<in> set (possiblePaths ''dir/'' ''./group1.bin''). map_of [] c = (None :: byte list option)"
    by simp
  have cands: "possiblePaths ''dir/'' ''./group1.bin'' =
      [''dir/./group1.bin'', ''./group1.bin'', ''model/./group1.bin'',
       ''assets/./group1.bin'', ''group1.bin'']"
    by (simp add: possiblePaths_def strip_dot_slash_def)
  from candidate_path_resolution [of "[]" "''group1.bin''" "[(''assets/group1.bin'', [7])]"] found
  have one: "load_weight_file [(''assets/group1.bin'', [7])] [] ''group1.bin'' =
     ([ConsoleLog ''Found weight file at path: assets/group1.bin''], Inr [7])"
    by simp
  from candidate_path_resolution [of "''dir/''" "''./group1.bin''" "[]"] absent
  have two: "load_weight_file [] ''dir/'' ''./group1.bin'' =
       ([ConsoleError ''Attempted paths:'' (possiblePaths ''dir/'' ''./group1.bin'')],
        Inl (Error ''Weight file not found in ZIP for path: ./group1.bin''))"
    by simp
  from one two show ?thesis by (simp only: cands simp_thms)
qed

section \<open>The cascade ends in the mock model\<close>

lemma zipSource_download_failed:
  "fst (downloadAndExtractModelZip ev s w) = Inl e \<Longrightarrow> fst (zipSource ev s w) = None"
  by (cases "downloadAndExtractModelZip ev s w") (simp add: zipSource_def)

lemma cascade_all_failed:
  assumes "modelExists ev \<and> weightsExist ev \<longrightarrow> isl (loadLocal ev)"
    and "isl (loadIndexedDB ev)" and "isl (loadLocalStorage ev)"
    and "fst (zipSource ev (s\<lparr>modelLoadingStage := ''loading-from-cache''\<rparr>) w) = None"
    and "isl (loadRemote ev)"
    and "createMockModel ev = Inr mock"
  shows "\<exists>s3 w3. zipSource ev (s\<lparr>modelLoadingStage := ''loading-from-cache''\<rparr>) w = (None, s3, w3)
     \<and> cascade ev s w =
         (Inr mock,
          s3\<lparr>modelLoadingStage := ''loading-from-server'',
             error := Some (cross_mark @
               '' Could not load real model. Using mock model for demonstration only.'')\<rparr>,
          w3)"
proof -
  obtain s3 w3 where z: "zipSource ev (s\<lparr>modelLoadingStage := ''loading-from-cache''\<rparr>) w = (None, s3, w3)"
    using assms(4) by (cases "zipSource ev (s\<lparr>modelLoadingStage := ''loading-from-cache''\<rparr>) w") auto
  have l: "\<exists>s1. try_local ev s = (None, s1) \<and> s1\<lparr>modelLoadingStage := ''loading-from-cache''\<rparr> =
      s\<lparr>modelLoadingStage := ''loading-from-cache''\<rparr>"
    using assms(1) by (cases "loadLocal ev") (auto simp: try_local_def Let_def)
  then obtain s1 where s1: "try_local ev s = (None, s1)"
    "s1\<lparr>modelLoadingStage := ''loading-from-cache''\<rparr> = s\<lparr>modelLoadingStage := ''loading-from-cache''\<rparr>"
    by blast
  have c: "try_cache ev s1 = (None, s\<lparr>modelLoadingStage := ''loading-from-cache''\<rparr>)"
    using assms(2,3) s1(2)
    by (cases "loadIndexedDB ev"; cases "loadLocalStorage ev") (simp_all add: try_cache_def Let_def)
  have r: "try_remote ev s3 = (None, s3\<lparr>modelLoadingStage := ''loading-from-server''\<rparr>)"
    using assms(5) by (cases "loadRemote ev") (simp_all add: try_remote_def Let_def)
  have "cascade ev s w =
         (Inr mock,
          s3\<lparr>modelLoadingStage := ''loading-from-server'',
             error := Some (cross_mark @
               '' Could not load real model. Using mock model for demonstration only.'')\<rparr>,
          w3)"
    by (simp add: cascade_def s1(1) c z r assms(6))
  with z show ?thesis by blast
qed

text \<open>
  Claim C2. When the runtime initialises and every real source fails (the local model
  where it is probed as present, both cache tiers, the session blob or download with
  its assembly, and the direct URL), and the mock model is built with a predict function,
  then the acquisition ends with the mock model installed, a non-empty error string, the
  stage \<^verbatim>\<open>ready\<close> and the loading flag cleared.
\<close>

theorem cascade_falls_back_to_mock:
  assumes "initRuntime ev = Inr ()"
    and "modelExists ev \<and> weightsExist ev \<longrightarrow> isl (loadLocal ev)"
    and "isl (loadIndexedDB ev)" and "isl (loadLocalStorage ev)"
    and "fst (zipSource ev (s\<lparr>isLoading := True, modelLoadingStage := ''loading-from-cache''\<rparr>) w)
           = None"
    and "isl (loadRemote ev)"
    and "createMockModel ev = Inr mock" and "predict mock \<noteq> None"
  shows "model (fst (loadModel ev s w)) = Some mock
       \<and> error (fst (loadModel ev s w)) =
           Some (cross_mark @
                 '' Could not load real model. Using mock model for demonstration only.'')
       \<and> error (fst (loadModel ev s w)) \<noteq> None
       \<and> error (fst (loadModel ev s w)) \<noteq> Some []
       \<and> modelLoadingStage (fst (loadModel ev s w)) = ''ready''
       \<and> \<not> isLoading (fst (loadModel ev s w))"
proof -
  let ?s1 = "s\<lparr>isLoading := True, modelLoadingStage := ''initializing''\<rparr>"
  have same: "?s1\<lparr>modelLoadingStage := ''loading-from-cache''\<rparr> =
      s\<lparr>isLoading := True, modelLoadingStage := ''loading-from-cache''\<rparr>"
    by simp
  from cascade_all_failed [of ev ?s1 w mock] assms(2-7) same
  obtain s3 w3 where c: "cascade ev ?s1 w =
         (Inr mock,
          s3\<lparr>modelLoadingStage := ''loading-from-server'',
             error := Some (cross_mark @
               '' Could not load real model. Using mock model for demonstration only.'')\<rparr>,
          w3)"
    by auto
  from assms(8) obtain f where f: "predict mock = Some f" by auto
  show ?thesis
    by (simp add: loadModel_def loadModel_try_def Let_def assms(1) USE_MOCK_MODEL_def c
        warm_up_and_install_def f cross_mark_def)
qed

lemma offline_zip_fails:
  "zipCacheRef s = None \<Longrightarrow> fst (zipSource test_env s offline) = None"
proof -
  assume cache: "zipCacheRef s = None"
  have get: "getModelDataFromSession test_env offline = None"
    by (simp add: getModelDataFromSession_def offline_def truthy_def Let_def)
  let ?s = "s\<lparr>modelLoadingStage := ''downloading''\<rparr>"
  have "download_with_retry (?s, offline) =
      (Inl (Error ''Failed to fetch''),
       (?s\<lparr>modelLoadingStage := ''download-retry''\<rparr>,
        offline\<lparr>fetches := fetches offline + 4, timeouts := timeouts offline @ [500, 500 * 2, 500 * 4]\<rparr>))"
    unfolding download_with_retry_def
    by (rule retry_all_failed) (rule fetch_error_offline)+
  then have "fst (fetchAndExtract storeModelDataInSession test_env ?s offline) =
      Inl (Error ''Failed to fetch'')"
    by (simp add: fetchAndExtract_def)
  then have "fst (downloadAndExtractModelZip test_env s offline) = Inl (Error ''Failed to fetch'')"
    using cache
    by (simp add: downloadAndExtractModelZip_def downloadAndExtract_def Let_def
        session_attempt_none get)
  then show ?thesis by (rule zipSource_download_failed)
qed

theorem cascade_falls_back_to_mock_witness:
  "model (fst (loadModel test_env initial_state offline)) = Some (const_model [1 / 2, 1 / 2])
   \<and> error (fst (loadModel test_env initial_state offline)) =
       Some (cross_mark @ '' Could not load real model. Using mock model for demonstration only.'')
   \<and> modelLoadingStage (fst (loadModel test_env initial_state offline)) = ''ready''
   \<and> \<not> isLoading (fst (loadModel test_env initial_state offline))"
proof -
  have zip: "fst (zipSource test_env
      (initial_state\<lparr>isLoading := True, modelLoadingStage := ''loading-from-cache''\<rparr>) offline) = None"
    by (rule offline_zip_fails) (simp add: initial_state_def)
  have mock: "predict (const_model [1 / 2, 1 / 2]) \<noteq> None"
    by (simp add: const_model_def)
  from cascade_falls_back_to_mock [of test_env initial_state offline "const_model [1 / 2, 1 / 2]",
      OF _ _ _ _ zip _ _ mock]
  show ?thesis by (simp add: test_env_def)
qed

end
